theory Spec2Isabelle
  imports
    Main
    "HOL-Library.Word"
    "HOL-Library.Char_ord"
    "HOL-Library.List_Lexorder"
    "HOL-Library.Option_ord"
    "HOL-Library.Product_Lexorder"
    "HOL-Library.Multiset"
begin

unbundle bit_operations_syntax

section \<open>Python values\<close>

text \<open>
  The values that travel through the backend are what \<^verbatim>\<open>json.loads\<close> produces and
  what the JSON columns of the database hold: \<^verbatim>\<open>None\<close>, booleans, integers, strings,
  lists and dictionaries with string keys. A dictionary is an association list in
  insertion order; Python keeps one entry per key, so the keys of a dictionary are
  distinct. A Python \<^verbatim>\<open>str\<close> is a list of characters, one per code point, for the code
  points 0 to 255. Floating-point numbers are outside the model.
\<close>

datatype json =
    JNull
  | JBool bool
  | JInt int
  | JStr string
  | JList "json list"
  | JDict "(string \<times> json) list"

text \<open>Truth value of a Python object, as \<^verbatim>\<open>if x:\<close>, \<^verbatim>\<open>not x\<close> and \<^verbatim>\<open>x or y\<close> test it.\<close>

fun truthy :: "json \<Rightarrow> bool" where
  "truthy JNull = False"
| "truthy (JBool b) = b"
| "truthy (JInt i) = (i \<noteq> 0)"
| "truthy (JStr s) = (s \<noteq> [])"
| "truthy (JList xs) = (xs \<noteq> [])"
| "truthy (JDict kvs) = (kvs \<noteq> [])"

text \<open>\<^verbatim>\<open>d.get(k)\<close> and \<^verbatim>\<open>d.get(k, default)\<close>.\<close>

definition dict_get :: "(string \<times> json) list \<Rightarrow> string \<Rightarrow> json \<Rightarrow> json" where
  "dict_get kvs k d = (case map_of kvs k of None \<Rightarrow> d | Some v \<Rightarrow> v)"

subsection \<open>Strings\<close>

definition quote_char :: char where
  "quote_char = CHR 0x22"

definition apostrophe :: char where
  "apostrophe = CHR 0x27"

definition backslash :: char where
  "backslash = CHR 0x5C"

text \<open>\<^verbatim>\<open>sep.join(parts)\<close>.\<close>

fun join :: "string \<Rightarrow> string list \<Rightarrow> string" where
  "join sep [] = []"
| "join sep [x] = x"
| "join sep (x # y # ys) = x @ sep @ join sep (y # ys)"

text \<open>\<^verbatim>\<open>str.isspace\<close> on one character, and \<^verbatim>\<open>str.strip()\<close>.\<close>

definition is_space :: "char \<Rightarrow> bool" where
  "is_space c =
     (let n = (of_char c :: nat)
      in (9 \<le> n \<and> n \<le> 13) \<or> (28 \<le> n \<and> n \<le> 32) \<or> n = 133 \<or> n = 160)"

definition strip :: "string \<Rightarrow> string" where
  "strip s = rev (dropWhile is_space (rev (dropWhile is_space s)))"

text \<open>\<^verbatim>\<open>str.lower()\<close>: the upper-case letters of ASCII and of Latin-1 move up by 32.\<close>

definition lower_char :: "char \<Rightarrow> char" where
  "lower_char c =
     (let n = (of_char c :: nat)
      in if (65 \<le> n \<and> n \<le> 90) \<or> (192 \<le> n \<and> n \<le> 222 \<and> n \<noteq> 215)
         then char_of (n + 32) else c)"

definition lower :: "string \<Rightarrow> string" where
  "lower s = map lower_char s"

text \<open>Decimal rendering of an integer, as \<^verbatim>\<open>str(n)\<close> and \<^verbatim>\<open>json.dumps(n)\<close> give it.\<close>

definition digit_char :: "nat \<Rightarrow> char" where
  "digit_char n = ''0123456789'' ! n"

definition hex_digit :: "nat \<Rightarrow> char" where
  "hex_digit n = ''0123456789abcdef'' ! n"

fun digits :: "nat \<Rightarrow> string" where
  "digits n = (if n < 10 then [digit_char n] else digits (n div 10) @ [digit_char (n mod 10)])"

definition int_repr :: "int \<Rightarrow> string" where
  "int_repr i = (if i < 0 then CHR ''-'' # digits (nat (- i)) else digits (nat i))"

subsection \<open>\<^verbatim>\<open>str\<close> and \<^verbatim>\<open>repr\<close>\<close>

text \<open>
  \<^verbatim>\<open>repr\<close> of a string picks the apostrophe as delimiter unless the string holds an
  apostrophe and no double quote, escapes the delimiter and the backslash, writes tab,
  newline and carriage return as \<^verbatim>\<open>\t \n \r\<close>, and every other non-printable character
  as \<^verbatim>\<open>\xNN\<close>.
\<close>

definition printable :: "char \<Rightarrow> bool" where
  "printable c =
     (let n = (of_char c :: nat)
      in (32 \<le> n \<and> n < 127) \<or> (161 \<le> n \<and> n \<noteq> 173))"

definition repr_char :: "char \<Rightarrow> char \<Rightarrow> string" where
  "repr_char q c =
     (if c = q \<or> c = backslash then [backslash, c]
      else if c = CHR 0x09 then [backslash, CHR ''t'']
      else if c = CHR 0x0A then [backslash, CHR ''n'']
      else if c = CHR 0x0D then [backslash, CHR ''r'']
      else if \<not> printable c
        then [backslash, CHR ''x'', hex_digit (of_char c div 16), hex_digit (of_char c mod 16)]
      else [c])"

definition repr_str :: "string \<Rightarrow> string" where
  "repr_str s =
     (let q = (if apostrophe \<in> set s \<and> quote_char \<notin> set s then quote_char else apostrophe)
      in q # concat (map (repr_char q) s) @ [q])"

fun py_repr :: "json \<Rightarrow> string" where
  "py_repr JNull = ''None''"
| "py_repr (JBool b) = (if b then ''True'' else ''False'')"
| "py_repr (JInt i) = int_repr i"
| "py_repr (JStr s) = repr_str s"
| "py_repr (JList xs) = ''['' @ join '', '' (map py_repr xs) @ '']''"
| "py_repr (JDict kvs) =
     ''{'' @ join '', '' (map (\<lambda>kv. repr_str (fst kv) @ '': '' @ py_repr (snd kv)) kvs) @ ''}''"

definition py_str :: "json \<Rightarrow> string" where
  "py_str v = (case v of JStr s \<Rightarrow> s | _ \<Rightarrow> py_repr v)"

section \<open>Canonical encoder\<close>

text \<open>
  \<^verbatim>\<open>json.dumps(v, sort_keys=True, ensure_ascii=False, separators=(',', ':'))\<close>.
  With \<^verbatim>\<open>ensure_ascii=False\<close> a string is written between double quotes with the double
  quote, the backslash and the control characters below 0x20 escaped and every other
  character as it is. With \<^verbatim>\<open>sort_keys=True\<close> the items of a dictionary are written in
  the order of their keys; the keys of a dictionary are distinct, so the sort compares
  keys only.
\<close>

definition esc_char :: "char \<Rightarrow> string" where
  "esc_char c =
     (if c = quote_char then [backslash, quote_char]
      else if c = backslash then [backslash, backslash]
      else if c = CHR 0x0A then [backslash, CHR ''n'']
      else if c = CHR 0x0D then [backslash, CHR ''r'']
      else if c = CHR 0x09 then [backslash, CHR ''t'']
      else if c = CHR 0x08 then [backslash, CHR ''b'']
      else if c = CHR 0x0C then [backslash, CHR ''f'']
      else if (of_char c :: nat) < 32
        then [backslash, CHR ''u'', CHR ''0'', CHR ''0'',
              hex_digit (of_char c div 16), hex_digit (of_char c mod 16)]
      else [c])"

definition encode_basestring :: "string \<Rightarrow> string" where
  "encode_basestring s = quote_char # concat (map esc_char s) @ [quote_char]"

fun dumps :: "json \<Rightarrow> string" where
  "dumps JNull = ''null''"
| "dumps (JBool b) = (if b then ''true'' else ''false'')"
| "dumps (JInt i) = int_repr i"
| "dumps (JStr s) = encode_basestring s"
| "dumps (JList xs) = ''['' @ join '','' (map dumps xs) @ '']''"
| "dumps (JDict kvs) =
     ''{'' @ join '','' (map (\<lambda>kv. encode_basestring (fst kv) @ '':'' @ dumps (snd kv))
                           (sort_key fst kvs)) @ ''}''"

section \<open>Fingerprint engine\<close>

text \<open>
  \<^verbatim>\<open>hashlib.sha256(normalized.encode('utf-8')).hexdigest()\<close>. The digest function is the
  standard library's, not this repository's: it is the parameter \<open>H\<close>, a function from
  byte strings to 256-bit words. The UTF-8 encoding of the code points 0 to 255 and the
  rendering of the digest as 64 hexadecimal digits are written out.
\<close>

definition utf8_char :: "char \<Rightarrow> string" where
  "utf8_char c =
     (let n = (of_char c :: nat)
      in if n < 128 then [c] else [char_of (192 + n div 64), char_of (128 + n mod 64)])"

definition utf8_encode :: "string \<Rightarrow> string" where
  "utf8_encode s = concat (map utf8_char s)"

definition hexdigest :: "256 word \<Rightarrow> string" where
  "hexdigest w = map (\<lambda>i. hex_digit (unat (drop_bit (4 * (63 - i)) w AND 15))) [0..<64]"

definition questions_fingerprint :: "(string \<Rightarrow> 256 word) \<Rightarrow> json \<Rightarrow> string" where
  "questions_fingerprint H questions = hexdigest (H (utf8_encode (dumps questions)))"

subsection \<open>Question lists\<close>

text \<open>
  Notions for the statements about fingerprints: a question dictionary and the same
  dictionary with its keys in another order; a question as the schema gives it back, from
  its text, its options and its correct answer.
\<close>

definition keys_permuted :: "json \<Rightarrow> json \<Rightarrow> bool" where
  "keys_permuted q q' =
     (case (q, q') of
        (JDict kvs, JDict kvs') \<Rightarrow> distinct (map fst kvs) \<and> mset kvs = mset kvs'
      | _ \<Rightarrow> False)"

definition schema_question :: "string \<times> string list \<times> string \<Rightarrow> json" where
  "schema_question q =
     (case q of (t, opts, c) \<Rightarrow>
        JDict [(''question'', JStr t), (''options'', JList (map JStr opts)),
               (''correct_answer'', JStr c)])"

section \<open>Quiz store\<close>

text \<open>
  A table is the list of its rows in insertion order. The primary key is an integer; a
  new row gets one more than the largest key of the table, or 1 in an empty table. A
  timestamp is a number of microseconds.
\<close>

record quiz =
  q_id :: int
  q_title :: "string option"
  q_questions :: json
  q_fingerprint :: "string option"
  q_created_at :: "int option"

definition next_id :: "int list \<Rightarrow> int" where
  "next_id ids = (if ids = [] then 1 else Max (set ids) + 1)"

text \<open>
  The schema of a question (\<^verbatim>\<open>QuestionSchema\<close>, \<^verbatim>\<open>QuizCreateSchema\<close>): a text, exactly
  four option strings, a correct answer that is one of them; at least one question.
\<close>

definition is_str :: "json \<Rightarrow> bool" where
  "is_str v = (case v of JStr _ \<Rightarrow> True | _ \<Rightarrow> False)"

definition valid_question :: "json \<Rightarrow> bool" where
  "valid_question q =
     (case q of
        JDict kvs \<Rightarrow>
          (case (map_of kvs ''question'', map_of kvs ''options'', map_of kvs ''correct_answer'') of
             (Some (JStr t), Some (JList opts), Some (JStr c)) \<Rightarrow>
               length opts = 4 \<and> list_all is_str opts \<and> List.member opts (JStr c)
           | _ \<Rightarrow> False)
      | _ \<Rightarrow> False)"

definition valid_questions :: "json \<Rightarrow> bool" where
  "valid_questions questions =
     (case questions of JList qs \<Rightarrow> qs \<noteq> [] \<and> list_all valid_question qs | _ \<Rightarrow> False)"

text \<open>
  The title test of \<^verbatim>\<open>save_quiz_to_db_sync\<close>:
  \<^verbatim>\<open>title and (existing.title in (None, "", "Uploaded Quiz")) and title != existing.title\<close>.
\<close>

definition title_backfill_due :: "string option \<Rightarrow> string option \<Rightarrow> bool" where
  "title_backfill_due title existing_title =
     (title \<noteq> None \<and> title \<noteq> Some [] \<and>
      (existing_title = None \<or> existing_title = Some [] \<or> existing_title = Some ''Uploaded Quiz'') \<and>
      title \<noteq> existing_title)"

text \<open>
  \<^verbatim>\<open>save_quiz_to_db_sync(title, questions)\<close> on the table \<open>db\<close> at time \<open>now\<close>: the id it
  returns and the table afterwards. The lookup takes the first row with the fingerprint;
  the update of the title goes to the row with the primary key of that row. A new row
  whose title is \<^verbatim>\<open>None\<close> gets the column's default.
\<close>

definition save_quiz_to_db_sync ::
  "(string \<Rightarrow> 256 word) \<Rightarrow> int \<Rightarrow> string option \<Rightarrow> json \<Rightarrow> quiz list \<Rightarrow> int \<times> quiz list" where
  "save_quiz_to_db_sync H now title questions db =
     (let fp = questions_fingerprint H questions
      in case find (\<lambda>q. q_fingerprint q = Some fp) db of
           Some existing \<Rightarrow>
             if title_backfill_due title (q_title existing)
             then (q_id existing,
                   map (\<lambda>q. if q_id q = q_id existing then q\<lparr>q_title := title\<rparr> else q) db)
             else (q_id existing, db)
         | None \<Rightarrow>
             let q = \<lparr>q_id = next_id (map q_id db),
                      q_title = (case title of None \<Rightarrow> Some ''Uploaded Quiz'' | Some t \<Rightarrow> Some t),
                      q_questions = questions,
                      q_fingerprint = Some fp,
                      q_created_at = Some now\<rparr>
             in (q_id q, db @ [q]))"

text \<open>A sequence of calls with the same question list, each with its own time and title.\<close>

fun save_quiz_repeat ::
  "(string \<Rightarrow> 256 word) \<Rightarrow> (int \<times> string option) list \<Rightarrow> json \<Rightarrow> quiz list
     \<Rightarrow> int list \<times> quiz list" where
  "save_quiz_repeat H [] questions db = ([], db)"
| "save_quiz_repeat H ((now, title) # calls) questions db =
     (let (i, db') = save_quiz_to_db_sync H now title questions db;
          (ids, db'') = save_quiz_repeat H calls questions db'
      in (i # ids, db''))"

text \<open>The rows of the table that carry a fingerprint.\<close>

definition live_rows :: "string \<Rightarrow> quiz list \<Rightarrow> quiz list" where
  "live_rows fp db = filter (\<lambda>q. q_fingerprint q = Some fp) db"

section \<open>Result store\<close>

record result =
  r_id :: int
  r_quiz_id :: "int option"
  r_score :: int
  r_total :: int
  r_answers :: json
  r_user :: json
  r_created_at :: "int option"

text \<open>
  The store can fail: a query or a commit raises, with a message. Which of them does, if
  any, is an input of the model.
\<close>

datatype db_fault = NoFault | QueryFails string | CommitFails string

text \<open>
  \<^verbatim>\<open>u = user if (user is None or isinstance(user, dict)) else {"raw": str(user)}\<close>
\<close>

definition wrap_user :: "json \<Rightarrow> json" where
  "wrap_user user =
     (case user of
        JNull \<Rightarrow> JNull
      | JDict kvs \<Rightarrow> JDict kvs
      | _ \<Rightarrow> JDict [(''raw'', JStr (py_str user))])"

text \<open>
  A candidate's stored user, parsed when it is a string: \<open>loads\<close> is \<^verbatim>\<open>json.loads\<close>, the
  standard library's parser, \<open>None\<close> where it raises.
\<close>

definition cand_user_norm :: "(string \<Rightarrow> json option) \<Rightarrow> json \<Rightarrow> json" where
  "cand_user_norm loads cand_user =
     (case cand_user of
        JStr s \<Rightarrow> (case loads s of Some v \<Rightarrow> v | None \<Rightarrow> JDict [(''raw'', JStr s)])
      | _ \<Rightarrow> cand_user)"

definition user_str :: "json \<Rightarrow> string" where
  "user_str u = (if u \<noteq> JNull then dumps u else ''null'')"

text \<open>
  The candidates of the query: same score, total and quiz reference, created at or after
  the cutoff, newest first (a stable sort: rows created at the same time stay in table
  order). A row with no creation time fails the comparison with the cutoff.
\<close>

definition is_candidate :: "int option \<Rightarrow> int \<Rightarrow> int \<Rightarrow> int \<Rightarrow> result \<Rightarrow> bool" where
  "is_candidate quiz_id score total' cutoff r =
     (r_score r = score \<and> r_total r = total' \<and>
      (case r_created_at r of None \<Rightarrow> False | Some t \<Rightarrow> cutoff \<le> t) \<and>
      r_quiz_id r = quiz_id)"

definition newest_first_key :: "result \<Rightarrow> int" where
  "newest_first_key r = (case r_created_at r of None \<Rightarrow> 0 | Some t \<Rightarrow> - t)"

definition candidates :: "int option \<Rightarrow> int \<Rightarrow> int \<Rightarrow> int \<Rightarrow> result list \<Rightarrow> result list" where
  "candidates quiz_id score total' cutoff db =
     sort_key newest_first_key (filter (is_candidate quiz_id score total' cutoff) db)"

text \<open>The deep comparison of one candidate with the incoming attempt.\<close>

definition deep_match :: "(string \<Rightarrow> json option) \<Rightarrow> string \<Rightarrow> json \<Rightarrow> result \<Rightarrow> bool" where
  "deep_match loads answers_norm u cand =
     (dumps (r_answers cand) = answers_norm \<and>
      user_str (cand_user_norm loads (r_user cand)) = user_str u)"

text \<open>The dictionary that \<^verbatim>\<open>save_result_sync\<close> returns for a row; \<open>isoformat\<close> is
  \<^verbatim>\<open>datetime.isoformat\<close> of the standard library.\<close>

definition result_dict :: "(int \<Rightarrow> string) \<Rightarrow> result \<Rightarrow> (string \<times> json) list" where
  "result_dict isoformat r =
     [(''id'', JInt (r_id r)),
      (''quiz_id'', case r_quiz_id r of None \<Rightarrow> JNull | Some q \<Rightarrow> JInt q),
      (''score'', JInt (r_score r)),
      (''total'', JInt (r_total r)),
      (''answers'', r_answers r),
      (''user'', r_user r),
      (''created_at'', case r_created_at r of None \<Rightarrow> JNull | Some t \<Rightarrow> JStr (isoformat t))]"

definition deduped_note :: "string \<times> json" where
  "deduped_note = (''note'', JStr ''returned existing result (deduped)'')"

text \<open>
  \<^verbatim>\<open>save_result_sync(quiz_id, score, total, answers, user, dedupe_window_seconds)\<close> on
  the table \<open>db\<close>. The clock is read twice: \<open>now\<close> for the cutoff and \<open>ins\<close> when a new
  row is created. The result is the exception's message (\<open>Inl\<close>) or the returned
  dictionary (\<open>Inr\<close>), and the table afterwards. \<^verbatim>\<open>json.dumps\<close> raises on none of
  the values of the model, so the \<^verbatim>\<open>str\<close> fallbacks of the source are never taken.
\<close>

definition save_result_sync ::
  "(string \<Rightarrow> json option) \<Rightarrow> (int \<Rightarrow> string) \<Rightarrow> db_fault \<Rightarrow> int \<Rightarrow> int
     \<Rightarrow> int option \<Rightarrow> int \<Rightarrow> int \<Rightarrow> json \<Rightarrow> json \<Rightarrow> int \<Rightarrow> result list
     \<Rightarrow> (string + json) \<times> result list" where
  "save_result_sync loads isoformat fault now ins quiz_id score total' answers user
       dedupe_window_seconds db =
     (let u = wrap_user user;
          answers_norm = dumps answers;
          cutoff = now - dedupe_window_seconds * 1000000
      in case fault of
           QueryFails e \<Rightarrow> (Inl e, db)
         | _ \<Rightarrow>
           (case find (deep_match loads answers_norm u)
                   (candidates quiz_id score total' cutoff db) of
              Some cand \<Rightarrow> (Inr (JDict (result_dict isoformat cand @ [deduped_note])), db)
            | None \<Rightarrow>
                (case fault of
                   CommitFails e \<Rightarrow> (Inl e, db)
                 | _ \<Rightarrow>
                   let r = \<lparr>r_id = next_id (map r_id db), r_quiz_id = quiz_id,
                            r_score = score, r_total = total', r_answers = answers,
                            r_user = u, r_created_at = Some ins\<rparr>
                   in (Inr (JDict (result_dict isoformat r)), db @ [r]))))"

text \<open>The id in a returned dictionary, and whether it carries the note of a reuse.\<close>

definition saved_id :: "json \<Rightarrow> int option" where
  "saved_id res =
     (case res of
        JDict kvs \<Rightarrow> (case map_of kvs ''id'' of Some (JInt i) \<Rightarrow> Some i | _ \<Rightarrow> None)
      | _ \<Rightarrow> None)"

definition is_deduped :: "json \<Rightarrow> bool" where
  "is_deduped res =
     (case res of
        JDict kvs \<Rightarrow> map_of kvs ''note'' = Some (JStr ''returned existing result (deduped)'')
      | _ \<Rightarrow> False)"

definition row_by_id :: "int \<Rightarrow> result list \<Rightarrow> result option" where
  "row_by_id i db = find (\<lambda>r. r_id r = i) db"

subsection \<open>The newest matching row\<close>

text \<open>
  Notions for the proofs: the rows that pass the deep comparison with an incoming attempt
  whatever the cutoff, the first of them in the order of the query, and the row that
  \<^verbatim>\<open>save_result_sync\<close> creates.
\<close>

definition head_option :: "'a list \<Rightarrow> 'a option" where
  "head_option xs = (case xs of [] \<Rightarrow> None | x # _ \<Rightarrow> Some x)"

definition matching_rows ::
  "(string \<Rightarrow> json option) \<Rightarrow> int option \<Rightarrow> int \<Rightarrow> int \<Rightarrow> string \<Rightarrow> json \<Rightarrow> result list
     \<Rightarrow> result list" where
  "matching_rows loads quiz_id score total' answers_norm u db =
     filter (\<lambda>r. r_score r = score \<and> r_total r = total' \<and> r_quiz_id r = quiz_id \<and>
                 r_created_at r \<noteq> None \<and> deep_match loads answers_norm u r) db"

definition newest_match ::
  "(string \<Rightarrow> json option) \<Rightarrow> int option \<Rightarrow> int \<Rightarrow> int \<Rightarrow> string \<Rightarrow> json \<Rightarrow> result list
     \<Rightarrow> result option" where
  "newest_match loads quiz_id score total' answers_norm u db =
     head_option (sort_key newest_first_key
       (matching_rows loads quiz_id score total' answers_norm u db))"

definition new_result :: "result list \<Rightarrow> int option \<Rightarrow> int \<Rightarrow> int \<Rightarrow> json \<Rightarrow> json \<Rightarrow> int \<Rightarrow> result" where
  "new_result db quiz_id score total' answers user ins =
     \<lparr>r_id = next_id (map r_id db), r_quiz_id = quiz_id, r_score = score, r_total = total',
      r_answers = answers, r_user = wrap_user user, r_created_at = Some ins\<rparr>"

section \<open>User-identity normaliser and bulk sweep\<close>

text \<open>The exceptions of Python that the modelled code can raise.\<close>

datatype py_error = AttributeError | TypeError | JSONDecodeError | ValidationError

text \<open>\<^verbatim>\<open>a or b\<close>.\<close>

definition py_or :: "json \<Rightarrow> json \<Rightarrow> json" where
  "py_or a b = (if truthy a then a else b)"

text \<open>
  \<^verbatim>\<open>make_user_key(u)\<close>. Only a string has the method \<^verbatim>\<open>strip\<close>: on any other value
  \<^verbatim>\<open>.strip()\<close> raises \<^verbatim>\<open>AttributeError\<close>. \<open>loads\<close> is \<^verbatim>\<open>json.loads\<close>, \<open>None\<close> where it
  raises.
\<close>

definition strip_lower :: "json \<Rightarrow> py_error + string" where
  "strip_lower v = (case v of JStr s \<Rightarrow> Inr (lower (strip s)) | _ \<Rightarrow> Inl AttributeError)"

definition make_user_key :: "(string \<Rightarrow> json option) \<Rightarrow> json \<Rightarrow> py_error + string" where
  "make_user_key loads u =
     (if \<not> truthy u then Inr []
      else
        case (case u of
                JStr s \<Rightarrow> (case loads s of None \<Rightarrow> Inl (lower (strip s)) | Some v \<Rightarrow> Inr v)
              | _ \<Rightarrow> Inr u) of
          Inl key \<Rightarrow> Inr key
        | Inr u' \<Rightarrow>
            (case u' of
               JDict kvs \<Rightarrow>
                 strip_lower
                   (py_or (dict_get kvs ''email'' JNull)
                     (py_or (dict_get kvs ''name'' JNull)
                       (py_or (dict_get kvs ''raw'' JNull) (JStr []))))
             | _ \<Rightarrow> Inr (lower (strip (py_str u')))))"

text \<open>
  The key of a row in \<^verbatim>\<open>cleanup\<close>:
  \<^verbatim>\<open>f"{r.quiz_id}|{uname}|{r.score}|{r.total}|{created_iso}"\<close>.
\<close>

definition bar :: char where
  "bar = CHR ''|''"

definition result_key ::
  "(string \<Rightarrow> json option) \<Rightarrow> (int \<Rightarrow> string) \<Rightarrow> result \<Rightarrow> py_error + string" where
  "result_key loads isoformat r =
     (case make_user_key loads (r_user r) of
        Inl e \<Rightarrow> Inl e
      | Inr uname \<Rightarrow>
          Inr ((case r_quiz_id r of None \<Rightarrow> ''None'' | Some q \<Rightarrow> int_repr q) @ [bar] @ uname @ [bar] @
               int_repr (r_score r) @ [bar] @ int_repr (r_total r) @ [bar] @
               (case r_created_at r of None \<Rightarrow> [] | Some t \<Rightarrow> isoformat t)))"

text \<open>The loop of \<^verbatim>\<open>cleanup\<close> over the rows, with the set \<^verbatim>\<open>seen\<close> and the list
  \<^verbatim>\<open>to_delete_ids\<close>.\<close>

fun sweep_loop ::
  "(string \<Rightarrow> json option) \<Rightarrow> (int \<Rightarrow> string) \<Rightarrow> result list \<Rightarrow> string list \<Rightarrow> int list
     \<Rightarrow> py_error + int list" where
  "sweep_loop loads isoformat [] seen to_delete_ids = Inr to_delete_ids"
| "sweep_loop loads isoformat (r # rows) seen to_delete_ids =
     (case result_key loads isoformat r of
        Inl e \<Rightarrow> Inl e
      | Inr key \<Rightarrow>
          if key \<in> set seen
          then sweep_loop loads isoformat rows seen (to_delete_ids @ [r_id r])
          else sweep_loop loads isoformat rows (key # seen) to_delete_ids)"

text \<open>
  \<^verbatim>\<open>cleanup()\<close>: what it returns, the lines it prints and the table afterwards, or the
  exception it raises (nothing is committed then). The rows are read ordered by creation
  time, then id; a row with no creation time sorts first.
\<close>

record sweep_outcome =
  returned :: json
  printed :: "string list"
  remaining :: "result list"

definition cleanup ::
  "(string \<Rightarrow> json option) \<Rightarrow> (int \<Rightarrow> string) \<Rightarrow> result list \<Rightarrow> py_error + sweep_outcome" where
  "cleanup loads isoformat db =
     (let rows = sort_key (\<lambda>r. (r_created_at r, r_id r)) db
      in case sweep_loop loads isoformat rows [] [] of
           Inl e \<Rightarrow> Inl e
         | Inr to_delete_ids \<Rightarrow>
             if to_delete_ids = []
             then Inr \<lparr>returned = JNull,
                       printed = [''No duplicate results found.''],
                       remaining = db\<rparr>
             else Inr \<lparr>returned = JNull,
                       printed =
                         [''Found '' @ digits (length to_delete_ids) @
                            '' duplicate result(s). Deleting...'',
                          ''Duplicates removed: '' @ py_repr (JList (map JInt to_delete_ids))],
                       remaining =
                         fold (\<lambda>rid table. filter (\<lambda>r. r_id r \<noteq> rid) table) to_delete_ids db\<rparr>)"

text \<open>
  A notion for the proofs about the sweep: the elements of a list whose key occurred
  earlier in the list or in \<open>seen\<close>.
\<close>

fun later_duplicates :: "('a \<Rightarrow> 'k) \<Rightarrow> 'a list \<Rightarrow> 'k list \<Rightarrow> 'a list" where
  "later_duplicates key [] seen = []"
| "later_duplicates key (r # rs) seen =
     (if key r \<in> set seen then r # later_duplicates key rs seen
      else later_duplicates key rs (key r # seen))"

section \<open>Grading and submit\<close>

text \<open>
  The questions file: missing, not parseable as JSON, or holding a JSON value.
\<close>

datatype file_state = Missing | Malformed | Holds json

text \<open>
  \<^verbatim>\<open>save_questions_and_db_async\<close>: the question list is validated against the schema,
  written to the questions file and saved to the quiz table; the dictionaries that are
  stored are the ones the schema gives back, with its three fields and nothing else.
  Validation is modelled without the coercions of the schema library.
\<close>

definition question_dict :: "json \<Rightarrow> json" where
  "question_dict q =
     (case q of
        JDict kvs \<Rightarrow>
          JDict [(''question'', dict_get kvs ''question'' JNull),
                 (''options'', dict_get kvs ''options'' JNull),
                 (''correct_answer'', dict_get kvs ''correct_answer'' JNull)]
      | _ \<Rightarrow> q)"

definition questions_dicts :: "json \<Rightarrow> json" where
  "questions_dicts questions =
     (case questions of JList qs \<Rightarrow> JList (map question_dict qs) | _ \<Rightarrow> questions)"

definition save_questions_and_db_async ::
  "(string \<Rightarrow> 256 word) \<Rightarrow> int \<Rightarrow> string option \<Rightarrow> json \<Rightarrow> quiz list \<times> file_state
     \<Rightarrow> py_error + int \<times> quiz list \<times> file_state" where
  "save_questions_and_db_async H now title questions state =
     (if \<not> valid_questions questions then Inl ValidationError
      else let (quiz_id, quizzes) =
                 save_quiz_to_db_sync H now title (questions_dicts questions) (fst state)
           in Inr (quiz_id, quizzes, Holds (questions_dicts questions)))"

text \<open>
  The request of \<^verbatim>\<open>/submit\<close>: the answers, the quiz id (an integer, or absent) and the
  user of the payload; an absent key reads as \<^verbatim>\<open>None\<close>.
\<close>

record payload =
  p_answers :: json
  p_quiz_id :: "int option"
  p_user :: json

datatype response =
    HTTPException int string
  | Unhandled py_error
  | JSONResponse json

definition load_questions :: "quiz list \<Rightarrow> file_state \<Rightarrow> int option \<Rightarrow> response + json" where
  "load_questions quizzes questions_file quiz_id =
     (if quiz_id \<noteq> None \<and> quiz_id \<noteq> Some 0
      then (case find (\<lambda>q. Some (q_id q) = quiz_id) quizzes of
              None \<Rightarrow> Inl (HTTPException 400 ''Quiz not found'')
            | Some q \<Rightarrow> Inr (q_questions q))
      else (case questions_file of
              Missing \<Rightarrow> Inl (HTTPException 400 ''No questions available to grade'')
            | Malformed \<Rightarrow> Inl (Unhandled JSONDecodeError)
            | Holds v \<Rightarrow> Inr v))"

text \<open>\<^verbatim>\<open>len(questions_data)\<close> and \<^verbatim>\<open>enumerate(questions_data)\<close>: the items of a list,
  the keys of a dictionary, the characters of a string; anything else has no length.\<close>

definition iterate :: "json \<Rightarrow> py_error + json list" where
  "iterate v =
     (case v of
        JList xs \<Rightarrow> Inr xs
      | JDict kvs \<Rightarrow> Inr (map (\<lambda>kv. JStr (fst kv)) kvs)
      | JStr s \<Rightarrow> Inr (map (\<lambda>c. JStr [c]) s)
      | _ \<Rightarrow> Inl TypeError)"

text \<open>
  The answer of the user to question \<open>idx\<close>: every exception of the lookup is caught and
  gives the empty answer. The keys of a dictionary that came as JSON are strings, so the
  lookup of the integer key finds nothing.
\<close>

definition user_answer :: "json \<Rightarrow> nat \<Rightarrow> string" where
  "user_answer answers idx =
     (case answers of
        JList xs \<Rightarrow>
          (if idx < length xs
           then (case py_or (xs ! idx) (JStr []) of JStr s \<Rightarrow> strip s | _ \<Rightarrow> [])
           else [])
      | JDict kvs \<Rightarrow> strip (py_str (dict_get kvs (int_repr (int idx)) (JStr [])))
      | _ \<Rightarrow> [])"

definition grade_one :: "json \<Rightarrow> nat \<Rightarrow> json \<Rightarrow> py_error + bool \<times> json" where
  "grade_one answers idx q =
     (case q of
        JDict kvs \<Rightarrow>
          (let userAns = user_answer answers idx;
               userAns_norm = lower (strip userAns);
               correct = strip (py_str (dict_get kvs ''correct_answer'' (JStr [])));
               correct_norm = lower correct;
               is_correct =
                 (if userAns_norm = ''skipped question'' \<or> userAns = [] then False
                  else if userAns_norm = correct_norm then True
                  else False)
           in Inr (is_correct,
                JDict [(''questionIndex'', JInt (int idx)),
                       (''questionText'', dict_get kvs ''question'' (JStr [])),
                       (''selected'', JStr userAns),
                       (''selectedText'', JStr userAns),
                       (''correct'', JStr correct),
                       (''correctText'', JStr correct),
                       (''isCorrect'', JBool is_correct),
                       (''explanation'', dict_get kvs ''explanation'' (JStr []))]))
      | _ \<Rightarrow> Inl AttributeError)"

fun grade_loop ::
  "json \<Rightarrow> nat \<Rightarrow> json list \<Rightarrow> int \<Rightarrow> json list \<Rightarrow> py_error + int \<times> json list" where
  "grade_loop answers idx [] score detailed = Inr (score, detailed)"
| "grade_loop answers idx (q # qs) score detailed =
     (case grade_one answers idx q of
        Inl e \<Rightarrow> Inl e
      | Inr (is_correct, entry) \<Rightarrow>
          grade_loop answers (Suc idx) qs (if is_correct then score + 1 else score)
            (detailed @ [entry]))"

definition is_dict_or_list :: "json \<Rightarrow> bool" where
  "is_dict_or_list v = (case v of JList _ \<Rightarrow> True | JDict _ \<Rightarrow> True | _ \<Rightarrow> False)"

text \<open>The payload returned when saving the result raised.\<close>

definition unsaved_result :: "int \<Rightarrow> int \<Rightarrow> json list \<Rightarrow> string \<Rightarrow> json" where
  "unsaved_result score total_questions detailed e =
     JDict [(''score'', JInt score), (''total'', JInt total_questions),
            (''detailed'', JList detailed), (''error_saving'', JStr e)]"

definition response_payload :: "int \<Rightarrow> int \<Rightarrow> json list \<Rightarrow> json \<Rightarrow> json" where
  "response_payload score total_questions detailed saved =
     JDict [(''score'', JInt score), (''total'', JInt total_questions),
            (''detailed'', JList detailed), (''saved_result'', saved)]"

text \<open>
  \<^verbatim>\<open>submit_answers(payload)\<close>: the response and the result table afterwards. The result
  is saved with the default window of 15 seconds.
\<close>

definition submit_answers ::
  "(string \<Rightarrow> json option) \<Rightarrow> (int \<Rightarrow> string) \<Rightarrow> db_fault \<Rightarrow> int \<Rightarrow> int
     \<Rightarrow> quiz list \<Rightarrow> file_state \<Rightarrow> payload \<Rightarrow> result list \<Rightarrow> response \<times> result list" where
  "submit_answers loads isoformat fault now ins quizzes questions_file request results =
     (if \<not> is_dict_or_list (p_answers request)
      then (HTTPException 400 ''Invalid answers format'', results)
      else
        case load_questions quizzes questions_file (p_quiz_id request) of
          Inl failure \<Rightarrow> (failure, results)
        | Inr questions_data \<Rightarrow>
            (case iterate questions_data of
               Inl e \<Rightarrow> (Unhandled e, results)
             | Inr questions \<Rightarrow>
                 (case grade_loop (p_answers request) 0 questions 0 [] of
                    Inl e \<Rightarrow> (Unhandled e, results)
                  | Inr (score, detailed) \<Rightarrow>
                      (let total_questions = int (length questions);
                           (outcome, results') =
                             save_result_sync loads isoformat fault now ins (p_quiz_id request)
                               score total_questions (JList detailed) (p_user request) 15 results;
                           saved = (case outcome of
                                      Inr row \<Rightarrow> row
                                    | Inl e \<Rightarrow> unsaved_result score total_questions detailed e)
                       in (JSONResponse
                             (response_payload score total_questions detailed saved),
                           results')))))"

text \<open>An entry of the detailed list whose \<^verbatim>\<open>isCorrect\<close> flag is true.\<close>

definition is_correct_entry :: "json \<Rightarrow> bool" where
  "is_correct_entry entry =
     (case entry of
        JDict kvs \<Rightarrow> map_of kvs ''isCorrect'' = Some (JBool True)
      | _ \<Rightarrow> False)"

text \<open>
  The state the backend keeps: every stored quiz and the questions file, when there is
  one, hold a question list that passed the schema.
\<close>

definition questions_validated :: "quiz list \<times> file_state \<Rightarrow> bool" where
  "questions_validated state =
     (list_all (\<lambda>q. valid_questions (q_questions q)) (fst state) \<and>
      (case snd state of Holds v \<Rightarrow> valid_questions v | Missing \<Rightarrow> True | Malformed \<Rightarrow> False))"

section \<open>Example data\<close>

text \<open>
  The question list of the specification's end-to-end example, a digest function to run
  the definitions with (the length of the input), and a row stored before fingerprints
  existed.
\<close>

definition example_questions :: json where
  "example_questions =
     JList [JDict [(''question'', JStr ''2+2?''),
                   (''options'', JList [JStr ''1'', JStr ''2'', JStr ''3'', JStr ''4'']),
                   (''correct_answer'', JStr ''4'')]]"

definition length_digest :: "string \<Rightarrow> 256 word" where
  "length_digest s = of_nat (length s)"

definition legacy_quiz :: quiz where
  "legacy_quiz =
     \<lparr>q_id = 1, q_title = Some ''Old'',
      q_questions =
        JList [JDict [(''question'', JStr ''1+1?''),
                      (''options'', JList [JStr ''1'', JStr ''2'', JStr ''3'', JStr ''4'']),
                      (''correct_answer'', JStr ''2'')]],
      q_fingerprint = None, q_created_at = Some 0\<rparr>"

definition placeholder_quiz :: quiz where
  "placeholder_quiz = \<lparr>q_id = 2, q_title = Some ''Uploaded Quiz'', q_questions = example_questions,
      q_fingerprint = Some (questions_fingerprint length_digest example_questions),
      q_created_at = Some 50\<rparr>"

definition example_answers :: json where
  "example_answers =
     JList [JDict [(''questionIndex'', JInt 0), (''questionText'', JStr ''2+2?''),
                   (''selected'', JStr ''4''), (''correct'', JStr ''4''),
                   (''isCorrect'', JBool True)]]"

definition example_user :: json where
  "example_user = JDict [(''email'', JStr ''a@x.com''), (''name'', JStr ''A'')]"

definition example_result :: result where
  "example_result =
     \<lparr>r_id = 1, r_quiz_id = Some 1, r_score = 1, r_total = 1, r_answers = example_answers,
      r_user = example_user, r_created_at = Some 100000005\<rparr>"

definition no_parse :: "string \<Rightarrow> json option" where
  "no_parse s = None"

text \<open>
  A result table for the sweep: three rows with the same key (the users differ in case
  and in fields that the normaliser does not look at) and a row created a second later.
\<close>

definition sweep_db :: "result list" where
  "sweep_db =
     [\<lparr>r_id = 1, r_quiz_id = Some 1, r_score = 3, r_total = 5, r_answers = JList [],
       r_user = JDict [(''email'', JStr ''a@x.com'')], r_created_at = Some 1000000\<rparr>,
      \<lparr>r_id = 2, r_quiz_id = Some 1, r_score = 3, r_total = 5, r_answers = JList [],
       r_user = JDict [(''email'', JStr ''A@x.com'')], r_created_at = Some 1000000\<rparr>,
      \<lparr>r_id = 3, r_quiz_id = Some 1, r_score = 3, r_total = 5, r_answers = JList [],
       r_user = JDict [(''name'', JStr ''ignored''), (''email'', JStr ''a@x.com'')],
       r_created_at = Some 1000000\<rparr>,
      \<lparr>r_id = 4, r_quiz_id = Some 1, r_score = 3, r_total = 5, r_answers = JList [],
       r_user = JDict [(''email'', JStr ''a@x.com'')], r_created_at = Some 2000000\<rparr>]"

text \<open>A request that answers the example quiz, and the detailed list of its grading.\<close>

definition example_request :: payload where
  "example_request = \<lparr>p_answers = JList [JStr '' 4 ''], p_quiz_id = Some 2, p_user = example_user\<rparr>"

definition example_detailed :: "json list" where
  "example_detailed =
     [JDict [(''questionIndex'', JInt 0), (''questionText'', JStr ''2+2?''),
             (''selected'', JStr ''4''), (''selectedText'', JStr ''4''),
             (''correct'', JStr ''4''), (''correctText'', JStr ''4''),
             (''isCorrect'', JBool True), (''explanation'', JStr [])]]"

text \<open>
  The question of the example, the same question with its keys in another order, and
  the question with one option changed.
\<close>

definition example_question :: json where
  "example_question =
     JDict [(''question'', JStr ''2+2?''),
            (''options'', JList [JStr ''1'', JStr ''2'', JStr ''3'', JStr ''4'']),
            (''correct_answer'', JStr ''4'')]"

definition permuted_question :: json where
  "permuted_question =
     JDict [(''correct_answer'', JStr ''4''),
            (''question'', JStr ''2+2?''),
            (''options'', JList [JStr ''1'', JStr ''2'', JStr ''3'', JStr ''4''])]"

definition changed_option :: json where
  "changed_option =
     JDict [(''question'', JStr ''2+2?''),
            (''options'', JList [JStr ''1'', JStr ''2'', JStr ''5'', JStr ''4'']),
            (''correct_answer'', JStr ''4'')]"

section \<open>Quiz save is idempotent\<close>

lemma find_live: "find (\<lambda>q. q_fingerprint q = Some fp) db = (case live_rows fp db of [] \<Rightarrow> None | q # _ \<Rightarrow> Some q)"
  by (induction db) (auto simp: live_rows_def)

lemma live_rows_retitle:
  "map q_id (live_rows fp (map (\<lambda>q. if q_id q = i then q\<lparr>q_title := t\<rparr> else q) db)) = map q_id (live_rows fp db)"
  by (induction db) (auto simp: live_rows_def)

lemma save_found:
  assumes "map q_id (live_rows (questions_fingerprint H qs) db) = [i]"
  shows "fst (save_quiz_to_db_sync H now title qs db) = i
       \<and> map q_id (live_rows (questions_fingerprint H qs) (snd (save_quiz_to_db_sync H now title qs db))) = [i]"
proof -
  obtain ex where ex: "live_rows (questions_fingerprint H qs) db = [ex]" "q_id ex = i"
    using assms by (cases "live_rows (questions_fingerprint H qs) db") auto
  show ?thesis
    using ex assms
    by (simp add: save_quiz_to_db_sync_def find_live Let_def live_rows_retitle)
qed

lemma save_fresh:
  assumes "live_rows (questions_fingerprint H qs) db = []"
  shows "map q_id (live_rows (questions_fingerprint H qs) (snd (save_quiz_to_db_sync H now title qs db)))
           = [fst (save_quiz_to_db_sync H now title qs db)]"
  using assms by (simp add: save_quiz_to_db_sync_def find_live Let_def live_rows_def)

lemma repeat_found:
  assumes "map q_id (live_rows (questions_fingerprint H qs) db) = [i]"
  shows "fst (save_quiz_repeat H calls qs db) = replicate (length calls) i
       \<and> map q_id (live_rows (questions_fingerprint H qs) (snd (save_quiz_repeat H calls qs db))) = [i]"
  using assms
proof (induction calls arbitrary: db)
  case Nil
  then show ?case by simp
next
  case (Cons c calls)
  obtain now title where c: "c = (now, title)" by (cases c)
  obtain j db' where s: "save_quiz_to_db_sync H now title qs db = (j, db')"
    by (cases "save_quiz_to_db_sync H now title qs db")
  from save_found [OF Cons.prems, of now title] s
  have j: "j = i" and inv: "map q_id (live_rows (questions_fingerprint H qs) db') = [i]"
    by simp_all
  from Cons.IH [OF inv] show ?case
    by (cases "save_quiz_repeat H calls qs db'") (simp add: c s j)
qed

text \<open>
  C1. Starting from a table with no quiz of the fingerprint of \<open>qs\<close>, every sequence of
  one or more calls of \<^verbatim>\<open>save_quiz_to_db_sync\<close> with \<open>qs\<close> (whatever the titles and the
  times) returns the same id each time, and afterwards exactly one row of the table has
  that fingerprint: the row with that id. This holds for every question list, so for
  every valid one.
\<close>

theorem quiz_save_idempotent:
  assumes "\<forall>q \<in> set db. q_fingerprint q \<noteq> Some (questions_fingerprint H qs)"
    and "calls \<noteq> []"
  shows "\<exists>i. fst (save_quiz_repeat H calls qs db) = replicate (length calls) i
           \<and> map q_id (live_rows (questions_fingerprint H qs) (snd (save_quiz_repeat H calls qs db))) = [i]"
proof -
  obtain now title rest where calls: "calls = (now, title) # rest"
    using assms(2) by (cases calls) auto
  have fresh: "live_rows (questions_fingerprint H qs) db = []"
    using assms(1) by (auto simp: live_rows_def filter_empty_conv)
  obtain j db' where s: "save_quiz_to_db_sync H now title qs db = (j, db')"
    by (cases "save_quiz_to_db_sync H now title qs db")
  from save_fresh [OF fresh, of now title] s
  have inv: "map q_id (live_rows (questions_fingerprint H qs) db') = [j]" by simp
  from repeat_found [OF inv, of rest] show ?thesis
    by (cases "save_quiz_repeat H rest qs db'") (auto simp: calls s)
qed

theorem quiz_save_idempotent_witness:
  "valid_questions example_questions
   \<and> (\<exists>i. fst (save_quiz_repeat length_digest [(100, Some ''Math''), (200, Some ''Math'')]
               example_questions [legacy_quiz])
            = replicate (length [(100::int, Some ''Math''), (200, Some ''Math'')]) i
      \<and> map q_id (live_rows (questions_fingerprint length_digest example_questions)
          (snd (save_quiz_repeat length_digest [(100, Some ''Math''), (200, Some ''Math'')]
                 example_questions [legacy_quiz]))) = [i])"
proof (rule conjI)
  show "valid_questions example_questions"
    by (simp add: example_questions_def valid_questions_def valid_question_def is_str_def)
  have fresh: "\<forall>q \<in> set [legacy_quiz].
      q_fingerprint q \<noteq> Some (questions_fingerprint length_digest example_questions)"
    by (simp add: legacy_quiz_def)
  have calls: "[(100::int, Some ''Math''), (200, Some ''Math'')] \<noteq> []"
    by simp
  show "\<exists>i. fst (save_quiz_repeat length_digest [(100, Some ''Math''), (200, Some ''Math'')]
               example_questions [legacy_quiz])
            = replicate (length [(100::int, Some ''Math''), (200, Some ''Math'')]) i
      \<and> map q_id (live_rows (questions_fingerprint length_digest example_questions)
          (snd (save_quiz_repeat length_digest [(100, Some ''Math''), (200, Some ''Math'')]
                 example_questions [legacy_quiz]))) = [i]"
    by (rule quiz_save_idempotent [OF fresh calls])
qed

section \<open>Title backfill on a resolved duplicate\<close>

lemma find_by_id:
  "ex \<in> set db \<Longrightarrow> distinct (map q_id db) \<Longrightarrow> find (\<lambda>q. q_id q = q_id ex) db = Some ex"
  by (induction db) (auto simp: rev_image_eqI)

lemma find_retitled:
  "find (\<lambda>q. q_id q = i) (map (\<lambda>q. if q_id q = i then q\<lparr>q_title := t\<rparr> else q) db)
     = map_option (\<lambda>q. q\<lparr>q_title := t\<rparr>) (find (\<lambda>q. q_id q = i) db)"
  by (induction db) auto

lemma others_retitled:
  "filter (\<lambda>q. q_id q \<noteq> i) (map (\<lambda>q. if q_id q = i then q\<lparr>q_title := t\<rparr> else q) db)
     = filter (\<lambda>q. q_id q \<noteq> i) db"
  by (induction db) auto

lemma ids_retitled:
  "map q_id (map (\<lambda>q. if q_id q = i then q\<lparr>q_title := t\<rparr> else q) db) = map q_id db"
  by (induction db) auto

lemma find_Some_mem: "find P xs = Some x \<Longrightarrow> x \<in> set xs"
  by (induction xs) (auto split: if_splits)

text \<open>
  C5. When \<^verbatim>\<open>save_quiz_to_db_sync\<close> finds a quiz \<open>ex\<close> with the fingerprint of the
  questions, it returns the id of \<open>ex\<close> and creates no row (the ids of the table are the
  same list); the stored title of \<open>ex\<close> becomes the proposed title exactly when the
  proposed title is non-empty, the stored title is \<^verbatim>\<open>None\<close>, empty or the placeholder
  \<^verbatim>\<open>"Uploaded Quiz"\<close>, and the two differ, and stays what it was otherwise; every other
  row is unchanged; a title that is not a placeholder is never overwritten. The ids of
  the table are distinct (the primary key).
\<close>

theorem title_backfill:
  assumes found: "find (\<lambda>q. q_fingerprint q = Some (questions_fingerprint H qs)) db = Some ex"
    and pk: "distinct (map q_id db)"
  shows "fst (save_quiz_to_db_sync H now title qs db) = q_id ex
     \<and> map q_id (snd (save_quiz_to_db_sync H now title qs db)) = map q_id db
     \<and> find (\<lambda>q. q_id q = q_id ex) (snd (save_quiz_to_db_sync H now title qs db))
         = Some (ex\<lparr>q_title :=
             if title \<noteq> None \<and> title \<noteq> Some [] \<and>
                (q_title ex = None \<or> q_title ex = Some [] \<or> q_title ex = Some ''Uploaded Quiz'') \<and>
                title \<noteq> q_title ex
             then title else q_title ex\<rparr>)
     \<and> filter (\<lambda>q. q_id q \<noteq> q_id ex) (snd (save_quiz_to_db_sync H now title qs db))
         = filter (\<lambda>q. q_id q \<noteq> q_id ex) db
     \<and> (q_title ex \<noteq> None \<and> q_title ex \<noteq> Some [] \<and> q_title ex \<noteq> Some ''Uploaded Quiz''
          \<longrightarrow> snd (save_quiz_to_db_sync H now title qs db) = db)"
proof -
  have mem: "ex \<in> set db" using found by (rule find_Some_mem)
  have byid: "find (\<lambda>q. q_id q = q_id ex) db = Some ex"
    using mem pk by (rule find_by_id)
  show ?thesis
  proof (cases "title_backfill_due title (q_title ex)")
    case True
    then have s: "save_quiz_to_db_sync H now title qs db =
        (q_id ex, map (\<lambda>q. if q_id q = q_id ex then q\<lparr>q_title := title\<rparr> else q) db)"
      using found by (simp add: save_quiz_to_db_sync_def)
    from True show ?thesis
      unfolding s by (auto simp: find_retitled others_retitled ids_retitled byid title_backfill_due_def)
  next
    case False
    then have s: "save_quiz_to_db_sync H now title qs db = (q_id ex, db)"
      using found by (simp add: save_quiz_to_db_sync_def)
    from False show ?thesis
      unfolding s by (auto simp: byid title_backfill_due_def)
  qed
qed

theorem title_backfill_witness:
  "fst (save_quiz_to_db_sync length_digest 100 (Some ''Math'') example_questions
          [legacy_quiz, placeholder_quiz]) = q_id placeholder_quiz
   \<and> map q_id (snd (save_quiz_to_db_sync length_digest 100 (Some ''Math'') example_questions
          [legacy_quiz, placeholder_quiz])) = [1, 2]
   \<and> find (\<lambda>q. q_id q = q_id placeholder_quiz)
        (snd (save_quiz_to_db_sync length_digest 100 (Some ''Math'') example_questions
          [legacy_quiz, placeholder_quiz]))
       = Some (placeholder_quiz\<lparr>q_title := Some ''Math''\<rparr>)"
proof -
  have found: "find (\<lambda>q. q_fingerprint q = Some (questions_fingerprint length_digest example_questions))
      [legacy_quiz, placeholder_quiz] = Some placeholder_quiz"
    by (simp add: legacy_quiz_def placeholder_quiz_def)
  have pk: "distinct (map q_id [legacy_quiz, placeholder_quiz])"
    by (simp add: legacy_quiz_def placeholder_quiz_def)
  have t: "q_title placeholder_quiz = Some ''Uploaded Quiz''" "q_id legacy_quiz = 1"
    "q_id placeholder_quiz = 2"
    by (simp_all add: placeholder_quiz_def legacy_quiz_def)
  show ?thesis
    using title_backfill [OF found pk, of 100 "Some ''Math''"]
    by (simp add: t)
qed

section \<open>Result dedupe within and after the window\<close>

lemma find_head_filter: "find P xs = head_option (filter P xs)"
  by (induction xs) (auto simp: head_option_def)

lemma head_filter_sorted:
  fixes f :: "'a \<Rightarrow> int"
  assumes "sorted (map f xs)"
  shows "head_option (filter (\<lambda>x. f x \<le> k) xs)
           = (case xs of [] \<Rightarrow> None | x # _ \<Rightarrow> if f x \<le> k then Some x else None)"
proof (cases xs)
  case Nil
  then show ?thesis by (simp add: head_option_def)
next
  case (Cons x ys)
  show ?thesis
  proof (cases "f x \<le> k")
    case True
    then show ?thesis by (simp add: Cons head_option_def)
  next
    case False
    have "\<forall>y \<in> set ys. f x \<le> f y" using assms by (simp add: Cons)
    then have "filter (\<lambda>x. f x \<le> k) ys = []" using False by (auto simp: filter_empty_conv)
    then show ?thesis using False by (simp add: Cons head_option_def)
  qed
qed

lemma head_insort:
  "head_option (insort_key f x ys)
     = (case head_option ys of None \<Rightarrow> Some x | Some y \<Rightarrow> if f x \<le> f y then Some x else Some y)"
  by (cases ys) (auto simp: head_option_def)

lemma head_sort_snoc:
  fixes f :: "'a \<Rightarrow> int"
  shows "head_option (sort_key f (xs @ [x]))
     = (case head_option (sort_key f xs) of None \<Rightarrow> Some x
        | Some y \<Rightarrow> if f y \<le> f x then Some y else Some x)"
proof (induction xs)
  case Nil
  then show ?case by (simp add: head_option_def)
next
  case (Cons a xs)
  show ?case
    by (cases "head_option (sort_key f xs)") (auto simp: head_insort Cons.IH)
qed

lemma head_option_mem: "head_option xs = Some x \<Longrightarrow> x \<in> set xs"
  by (cases xs) (auto simp: head_option_def)

lemma newest_match_props:
  assumes "newest_match loads q s t an u db = Some d"
  shows "d \<in> set db" and "r_created_at d \<noteq> None"
proof -
  from assms have "d \<in> set (sort_key newest_first_key (matching_rows loads q s t an u db))"
    unfolding newest_match_def by (rule head_option_mem)
  then have "d \<in> set (matching_rows loads q s t an u db)" by simp
  then show "d \<in> set db" and "r_created_at d \<noteq> None"
    by (simp_all add: matching_rows_def)
qed

lemma find_candidates:
  "find (deep_match loads an u) (candidates q s t c db)
     = (case newest_match loads q s t an u db of
          None \<Rightarrow> None
        | Some d \<Rightarrow> if newest_first_key d \<le> - c then Some d else None)"
proof -
  let ?M = "matching_rows loads q s t an u db"
  let ?D = "sort_key newest_first_key ?M"
  have 1: "filter (deep_match loads an u) (filter (is_candidate q s t c) db)
             = filter (\<lambda>r. newest_first_key r \<le> - c) ?M"
    unfolding matching_rows_def filter_filter
    by (rule filter_cong) (auto simp: is_candidate_def newest_first_key_def split: option.splits)
  have "find (deep_match loads an u) (candidates q s t c db)
          = head_option (sort_key newest_first_key
              (filter (deep_match loads an u) (filter (is_candidate q s t c) db)))"
    by (simp only: find_head_filter candidates_def filter_sort)
  also have "\<dots> = head_option (filter (\<lambda>r. newest_first_key r \<le> - c) ?D)"
    by (simp only: 1 filter_sort)
  also have "\<dots> = (case ?D of [] \<Rightarrow> None
                    | d # _ \<Rightarrow> if newest_first_key d \<le> - c then Some d else None)"
    by (rule head_filter_sorted) simp
  finally show ?thesis
    by (simp add: newest_match_def head_option_def split: list.splits)
qed

lemma wrap_user_self: "cand_user_norm loads (wrap_user user) = wrap_user user"
  by (cases user) (simp_all add: wrap_user_def cand_user_norm_def)

lemma newest_match_snoc:
  assumes "r_score r = s" "r_total r = t" "r_quiz_id r = q" "r_created_at r = Some ins"
    "deep_match loads an u r"
  shows "newest_match loads q s t an u (db @ [r])
     = (case newest_match loads q s t an u db of None \<Rightarrow> Some r
        | Some d \<Rightarrow> if newest_first_key d \<le> newest_first_key r then Some d else Some r)"
  using assms by (simp add: newest_match_def matching_rows_def head_sort_snoc)

lemma next_id_fresh: "next_id ids \<notin> set ids"
proof (cases "ids = []")
  case True
  then show ?thesis by simp
next
  case False
  have "\<forall>i \<in> set ids. i \<le> Max (set ids)" by simp
  then have "\<forall>i \<in> set ids. i < next_id ids" using False by (auto simp: next_id_def)
  then show ?thesis by auto
qed

lemma row_by_id_mem:
  "d \<in> set db \<Longrightarrow> distinct (map r_id db) \<Longrightarrow> row_by_id (r_id d) db = Some d"
  unfolding row_by_id_def by (induction db) (auto simp: rev_image_eqI)

lemma row_by_id_new:
  "r_id r \<notin> set (map r_id db) \<Longrightarrow> row_by_id (r_id r) (db @ [r]) = Some r"
  unfolding row_by_id_def by (induction db) auto

lemma saved_id_dict [simp]: "saved_id (JDict (result_dict isoformat r @ rest)) = Some (r_id r)"
  by (simp add: saved_id_def result_dict_def)

lemma saved_id_new [simp]: "saved_id (JDict (result_dict isoformat r)) = Some (r_id r)"
  by (simp add: saved_id_def result_dict_def)

lemma is_deduped_reuse [simp]: "is_deduped (JDict (result_dict isoformat r @ [deduped_note]))"
  by (simp add: is_deduped_def result_dict_def deduped_note_def)

lemma not_deduped_new [simp]: "\<not> is_deduped (JDict (result_dict isoformat r))"
  by (simp add: is_deduped_def result_dict_def)

lemma save_result_cases:
  "save_result_sync loads isoformat NoFault now ins q s t answers user w db
     = (case newest_match loads q s t (dumps answers) (wrap_user user) db of
          None \<Rightarrow> (Inr (JDict (result_dict isoformat (new_result db q s t answers user ins))),
                   db @ [new_result db q s t answers user ins])
        | Some d \<Rightarrow>
            if newest_first_key d \<le> - (now - w * 1000000)
            then (Inr (JDict (result_dict isoformat d @ [deduped_note])), db)
            else (Inr (JDict (result_dict isoformat (new_result db q s t answers user ins))),
                  db @ [new_result db q s t answers user ins]))"
  by (simp add: save_result_sync_def find_candidates new_result_def Let_def split: option.splits)

lemma new_result_matches:
  "deep_match loads (dumps answers) (wrap_user user) (new_result db q s t answers user ins)"
  by (simp add: deep_match_def new_result_def wrap_user_self)

lemma newest_match_after_insert:
  "newest_match loads q s t (dumps answers) (wrap_user user)
       (db @ [new_result db q s t answers user ins])
     = (case newest_match loads q s t (dumps answers) (wrap_user user) db of
          None \<Rightarrow> Some (new_result db q s t answers user ins)
        | Some d \<Rightarrow> if newest_first_key d \<le> - ins then Some d
                    else Some (new_result db q s t answers user ins))"
proof -
  let ?r = "new_result db q s t answers user ins"
  have k: "newest_first_key ?r = - ins"
    by (simp add: newest_first_key_def new_result_def)
  have f: "r_score ?r = s" "r_total ?r = t" "r_quiz_id ?r = q" "r_created_at ?r = Some ins"
    by (simp_all add: new_result_def)
  show ?thesis
    by (simp only: newest_match_snoc [OF f new_result_matches] k)
qed

lemma save_result_reuse:
  assumes "newest_match loads q s t (dumps answers) (wrap_user user) db = Some d"
    and "newest_first_key d \<le> - (now - w * 1000000)"
  shows "save_result_sync loads isoformat NoFault now ins q s t answers user w db
           = (Inr (JDict (result_dict isoformat d @ [deduped_note])), db)"
  using assms by (simp add: save_result_cases)

lemma save_result_insert:
  assumes "case newest_match loads q s t (dumps answers) (wrap_user user) db of
             None \<Rightarrow> True | Some d \<Rightarrow> \<not> newest_first_key d \<le> - (now - w * 1000000)"
  shows "save_result_sync loads isoformat NoFault now ins q s t answers user w db
           = (Inr (JDict (result_dict isoformat (new_result db q s t answers user ins))),
              db @ [new_result db q s t answers user ins])"
  using assms
  by (cases "newest_match loads q s t (dumps answers) (wrap_user user) db")
     (simp_all add: save_result_cases)

lemma new_result_row:
  "row_by_id (r_id (new_result db q s t answers user ins))
      (db @ [new_result db q s t answers user ins])
     = Some (new_result db q s t answers user ins)"
proof (rule row_by_id_new)
  show "r_id (new_result db q s t answers user ins) \<notin> set (map r_id db)"
    using next_id_fresh [of "map r_id db"] by (simp add: new_result_def)
qed

lemma example_first_call:
  "save_result_sync no_parse int_repr NoFault 100000000 100000005 (Some 1) 1 1
       example_answers example_user 15 []
     = (Inr (JDict (result_dict int_repr example_result)), [example_result])"
  by (simp add: save_result_sync_def candidates_def next_id_def example_result_def Let_def
      wrap_user_def example_user_def)

lemma newest_match_content:
  assumes "newest_match loads q s t an u db = Some d"
  shows "r_quiz_id d = q \<and> r_score d = s \<and> r_total d = t \<and> deep_match loads an u d"
proof -
  from assms have "d \<in> set (sort_key newest_first_key (matching_rows loads q s t an u db))"
    unfolding newest_match_def by (rule head_option_mem)
  then have "d \<in> set (matching_rows loads q s t an u db)" by simp
  then show ?thesis by (simp add: matching_rows_def)
qed

text \<open>
  C2. Two calls of \<^verbatim>\<open>save_result_sync\<close> with the same quiz reference, score, total,
  answers and user. The first call succeeds and returns the id of a stored row \<^verbatim>\<open>row1\<close>;
  it leaves the table as it was or appends exactly that row, and on an empty table the
  table afterwards is that one row. The row carries the quiz reference, score and total of
  the call, answers with the same canonical dump and a user with the same normalised
  string, and it has a creation time. If the second call runs less than
  \<^verbatim>\<open>dedupe_window_seconds\<close> after that creation time, it inserts nothing, leaves the
  table unchanged and returns the dict of that same row, with the same id and the note of
  a deduped reuse. The table has distinct primary keys, the window is not negative, and
  the first call reads the clock for the cutoff before a row is created.
\<close>

theorem result_dedupe_within_window:
  assumes pk: "distinct (map r_id db)"
    and window: "0 \<le> w"
    and clock: "now1 \<le> ins1"
  shows "\<exists>res1 row1 c1.
      fst (save_result_sync loads isoformat NoFault now1 ins1 q s t answers user w db) = Inr res1
    \<and> saved_id res1 = Some (r_id row1)
    \<and> row_by_id (r_id row1)
         (snd (save_result_sync loads isoformat NoFault now1 ins1 q s t answers user w db))
        = Some row1
    \<and> (snd (save_result_sync loads isoformat NoFault now1 ins1 q s t answers user w db) = db
        \<or> snd (save_result_sync loads isoformat NoFault now1 ins1 q s t answers user w db)
            = db @ [row1])
    \<and> (db = [] \<longrightarrow>
          snd (save_result_sync loads isoformat NoFault now1 ins1 q s t answers user w db)
            = [row1])
    \<and> r_created_at row1 = Some c1
    \<and> r_quiz_id row1 = q \<and> r_score row1 = s \<and> r_total row1 = t
    \<and> dumps (r_answers row1) = dumps answers
    \<and> user_str (cand_user_norm loads (r_user row1)) = user_str (wrap_user user)
    \<and> (now2 - c1 < w * 1000000 \<longrightarrow>
          (\<exists>res2.
             save_result_sync loads isoformat NoFault now2 ins2 q s t answers user w
                 (snd (save_result_sync loads isoformat NoFault now1 ins1 q s t answers user w db))
               = (Inr res2,
                  snd (save_result_sync loads isoformat NoFault now1 ins1 q s t answers user w db))
           \<and> res2 = JDict (result_dict isoformat row1 @ [deduped_note])
           \<and> saved_id res2 = saved_id res1
           \<and> is_deduped res2))"
proof -
  let ?nm = "newest_match loads q s t (dumps answers) (wrap_user user)"
  let ?r = "new_result db q s t answers user ins1"
  let ?S1 = "save_result_sync loads isoformat NoFault now1 ins1 q s t answers user w db"
  show ?thesis
  proof (cases "case ?nm db of None \<Rightarrow> True
                | Some d \<Rightarrow> \<not> newest_first_key d \<le> - (now1 - w * 1000000)")
    case True
    have S1: "?S1 = (Inr (JDict (result_dict isoformat ?r)), db @ [?r])"
      using True by (rule save_result_insert)
    have row: "row_by_id (r_id ?r) (db @ [?r]) = Some ?r" by (rule new_result_row)
    have fields: "r_created_at ?r = Some ins1" "r_quiz_id ?r = q" "r_score ?r = s"
      "r_total ?r = t" "dumps (r_answers ?r) = dumps answers"
      by (simp_all add: new_result_def)
    have usr: "user_str (cand_user_norm loads (r_user ?r)) = user_str (wrap_user user)"
      by (simp add: new_result_def wrap_user_self)
    have newest: "?nm (db @ [?r]) = Some ?r"
    proof (cases "?nm db")
      case None
      then show ?thesis by (simp add: newest_match_after_insert)
    next
      case (Some d)
      have "0 \<le> w * 1000000" using window by simp
      then have "\<not> newest_first_key d \<le> - ins1" using True Some clock by simp
      then show ?thesis by (simp add: newest_match_after_insert Some)
    qed
    have second: "save_result_sync loads isoformat NoFault now2 ins2 q s t answers user w
        (db @ [?r]) = (Inr (JDict (result_dict isoformat ?r @ [deduped_note])), db @ [?r])"
      if "now2 - ins1 < w * 1000000"
    proof -
      have "newest_first_key ?r \<le> - (now2 - w * 1000000)"
        using that by (simp add: newest_first_key_def new_result_def)
      with newest show ?thesis by (rule save_result_reuse)
    qed
    have f1: "fst ?S1 = Inr (JDict (result_dict isoformat ?r))" by (simp add: S1)
    have f2: "snd ?S1 = db @ [?r]" by (simp add: S1)
    have f3: "db = [] \<longrightarrow> snd ?S1 = [?r]" by (simp only: f2) simp
    have f4: "saved_id (JDict (result_dict isoformat ?r)) = Some (r_id ?r)" by simp
    have f5: "row_by_id (r_id ?r) (snd ?S1) = Some ?r" using row by (simp only: f2)
    have f6: "now2 - ins1 < w * 1000000 \<longrightarrow>
          (\<exists>res2. save_result_sync loads isoformat NoFault now2 ins2 q s t answers user w
                 (snd ?S1) = (Inr res2, snd ?S1)
           \<and> res2 = JDict (result_dict isoformat ?r @ [deduped_note])
           \<and> saved_id res2 = saved_id (JDict (result_dict isoformat ?r))
           \<and> is_deduped res2)"
      using second by (simp add: f2)
    show ?thesis
      apply (rule exI [of _ "JDict (result_dict isoformat ?r)"])
      apply (rule exI [of _ ?r])
      apply (rule exI [of _ ins1])
      apply (intro conjI)
      apply (rule f1)
      apply (rule f4)
      apply (rule f5)
      apply (rule disjI2, rule f2)
      apply (rule f3)
      apply (rule fields(1))
      apply (rule fields(2))
      apply (rule fields(3))
      apply (rule fields(4))
      apply (rule fields(5))
      apply (rule usr)
      apply (rule f6)
      done
  next
    case False
    then obtain d where d: "?nm db = Some d"
      and near: "newest_first_key d \<le> - (now1 - w * 1000000)"
      by (auto split: option.splits)
    have S1: "?S1 = (Inr (JDict (result_dict isoformat d @ [deduped_note])), db)"
      using d near by (rule save_result_reuse)
    have mem: "d \<in> set db" using d by (rule newest_match_props)
    have row: "row_by_id (r_id d) db = Some d" using mem pk by (rule row_by_id_mem)
    obtain c1 where c1: "r_created_at d = Some c1"
      using newest_match_props(2) [OF d] by auto
    have content: "r_quiz_id d = q" "r_score d = s" "r_total d = t"
      "dumps (r_answers d) = dumps answers"
      "user_str (cand_user_norm loads (r_user d)) = user_str (wrap_user user)"
      using newest_match_content [OF d] by (simp_all add: deep_match_def)
    have ne: "db \<noteq> []" using mem by auto
    have second: "save_result_sync loads isoformat NoFault now2 ins2 q s t answers user w db
        = (Inr (JDict (result_dict isoformat d @ [deduped_note])), db)"
      if "now2 - c1 < w * 1000000"
    proof -
      have "newest_first_key d \<le> - (now2 - w * 1000000)"
        using that c1 by (simp add: newest_first_key_def)
      with d show ?thesis by (rule save_result_reuse)
    qed
    have f1: "fst ?S1 = Inr (JDict (result_dict isoformat d @ [deduped_note]))"
      by (simp add: S1)
    have f2: "snd ?S1 = db" by (simp add: S1)
    have f3: "db = [] \<longrightarrow> snd ?S1 = [d]" using ne by simp
    have f4: "saved_id (JDict (result_dict isoformat d @ [deduped_note])) = Some (r_id d)"
      by simp
    have f5: "row_by_id (r_id d) (snd ?S1) = Some d" using row by (simp only: f2)
    have f6: "now2 - c1 < w * 1000000 \<longrightarrow>
          (\<exists>res2. save_result_sync loads isoformat NoFault now2 ins2 q s t answers user w
                 (snd ?S1) = (Inr res2, snd ?S1)
           \<and> res2 = JDict (result_dict isoformat d @ [deduped_note])
           \<and> saved_id res2 = saved_id (JDict (result_dict isoformat d @ [deduped_note]))
           \<and> is_deduped res2)"
      using second by (simp add: f2)
    show ?thesis
      apply (rule exI [of _ "JDict (result_dict isoformat d @ [deduped_note])"])
      apply (rule exI [of _ d])
      apply (rule exI [of _ c1])
      apply (intro conjI)
      apply (rule f1)
      apply (rule f4)
      apply (rule f5)
      apply (rule disjI1, rule f2)
      apply (rule f3)
      apply (rule c1)
      apply (rule content(1))
      apply (rule content(2))
      apply (rule content(3))
      apply (rule content(4))
      apply (rule content(5))
      apply (rule f6)
      done
  qed
qed

theorem result_dedupe_within_window_witness:
  "save_result_sync no_parse int_repr NoFault 100000000 100000005 (Some 1) 1 1
       example_answers example_user 15 []
     = (Inr (JDict (result_dict int_repr example_result)), [example_result])
   \<and> save_result_sync no_parse int_repr NoFault 105000000 105000007 (Some 1) 1 1
       example_answers example_user 15 [example_result]
     = (Inr (JDict (result_dict int_repr example_result @ [deduped_note])), [example_result])"
proof -
  have pk: "distinct (map r_id [])" by simp
  have window: "(0::int) \<le> 15" by simp
  have clock: "(100000000::int) \<le> 100000005" by simp
  from result_dedupe_within_window [OF pk window clock, of no_parse int_repr "Some 1" 1 1 example_answers
      example_user 105000000 105000007]
  obtain res1 row1 c1 where
    one: "[example_result] = [row1]"
    and c1: "r_created_at row1 = Some c1"
    and two: "105000000 - c1 < 15 * 1000000 \<longrightarrow>
      save_result_sync no_parse int_repr NoFault 105000000 105000007 (Some 1) 1 1
        example_answers example_user 15 [example_result]
      = (Inr (JDict (result_dict int_repr row1 @ [deduped_note])), [example_result])"
    unfolding example_first_call by auto
  have row: "row1 = example_result" using one by simp
  have "c1 = 100000005" using c1 by (simp add: row example_result_def)
  then show ?thesis using two example_first_call by (simp add: row)
qed

text \<open>
  C3. Two calls of \<^verbatim>\<open>save_result_sync\<close> with the same arguments, the second one after
  the first, strictly more than \<^verbatim>\<open>dedupe_window_seconds\<close> after the creation time of
  the row the first call returned: the second call inserts a new row with a fresh id and
  returns it without the note of a reuse; starting from an empty table the table then
  holds two rows.
\<close>

theorem result_dedupe_window_boundary:
  assumes pk: "distinct (map r_id db)"
    and first: "save_result_sync loads isoformat NoFault now1 ins1 q s t answers user w db
                  = (Inr res1, db1)"
    and id1: "saved_id res1 = Some i1"
    and row1: "row_by_id i1 db1 = Some row1"
    and c1: "r_created_at row1 = Some c1"
    and elapsed: "w * 1000000 < now2 - c1"
    and order: "now1 \<le> now2"
  shows "\<exists>res2 r. save_result_sync loads isoformat NoFault now2 ins2 q s t answers user w db1
                  = (Inr res2, db1 @ [r])
           \<and> saved_id res2 = Some (r_id r) \<and> r_id r \<notin> set (map r_id db1) \<and> \<not> is_deduped res2
           \<and> r_quiz_id r = q \<and> r_score r = s \<and> r_total r = t \<and> r_answers r = answers
           \<and> r_user r = wrap_user user \<and> r_created_at r = Some ins2
           \<and> (db = [] \<longrightarrow> length (db1 @ [r]) = 2)"
proof -
  let ?nm = "newest_match loads q s t (dumps answers) (wrap_user user)"
  let ?r = "new_result db q s t answers user ins1"
  let ?r2 = "new_result db1 q s t answers user ins2"
  have far: "case ?nm db1 of None \<Rightarrow> True
             | Some d \<Rightarrow> \<not> newest_first_key d \<le> - (now2 - w * 1000000)"
  proof (cases "case ?nm db of None \<Rightarrow> True
                | Some d \<Rightarrow> \<not> newest_first_key d \<le> - (now1 - w * 1000000)")
    case True
    from save_result_insert [OF True, of isoformat ins1] first
    have res1: "res1 = JDict (result_dict isoformat ?r)" and db1: "db1 = db @ [?r]"
      by simp_all
    have i1: "i1 = r_id ?r" using id1 res1 by simp
    have "row1 = ?r" using row1 new_result_row [of db q s t answers user ins1]
      by (simp add: i1 db1)
    then have c1': "c1 = ins1" using c1 by (simp add: new_result_def)
    have k: "newest_first_key ?r = - ins1"
      by (simp add: newest_first_key_def new_result_def)
    show ?thesis
      using True elapsed order c1' k
      by (auto simp: db1 newest_match_after_insert split: option.splits)
  next
    case False
    then obtain d where d: "?nm db = Some d"
      and near: "newest_first_key d \<le> - (now1 - w * 1000000)"
      by (auto split: option.splits)
    from save_result_reuse [OF d near, of isoformat ins1] first
    have res1: "res1 = JDict (result_dict isoformat d @ [deduped_note])" and db1: "db1 = db"
      by simp_all
    have i1: "i1 = r_id d" using id1 res1 by simp
    have mem: "d \<in> set db" using d by (rule newest_match_props)
    have "row1 = d" using row1 row_by_id_mem [OF mem pk] by (simp add: i1 db1)
    then have "newest_first_key d = - c1" using c1 by (simp add: newest_first_key_def)
    then show ?thesis using elapsed by (simp add: db1 d)
  qed
  have fresh: "r_id ?r2 \<notin> set (map r_id db1)"
    using next_id_fresh [of "map r_id db1"] by (simp add: new_result_def)
  have two: "db = [] \<longrightarrow> length (db1 @ [?r2]) = 2"
  proof
    assume e: "db = []"
    have "?nm db = None" by (simp add: e newest_match_def matching_rows_def head_option_def)
    then have "case ?nm db of None \<Rightarrow> True
               | Some d \<Rightarrow> \<not> newest_first_key d \<le> - (now1 - w * 1000000)"
      by simp
    from save_result_insert [OF this, of isoformat ins1] first
    have "db1 = db @ [?r]" by simp
    then show "length (db1 @ [?r2]) = 2" by (simp add: e)
  qed
  from save_result_insert [OF far, of isoformat ins2] fresh two
  show ?thesis
    by (intro exI [of _ "JDict (result_dict isoformat ?r2)"] exI [of _ ?r2])
       (simp add: new_result_def)
qed

theorem result_dedupe_window_boundary_witness:
  "\<exists>res2 r. save_result_sync no_parse int_repr NoFault 200000000 200000003 (Some 1) 1 1
              example_answers example_user 15 [example_result]
            = (Inr res2, [example_result] @ [r])
        \<and> saved_id res2 = Some (r_id r) \<and> r_id r \<notin> set (map r_id [example_result])
        \<and> \<not> is_deduped res2 \<and> r_created_at r = Some 200000003"
proof -
  have pk: "distinct (map r_id [])" by simp
  have id1: "saved_id (JDict (result_dict int_repr example_result)) = Some 1"
    by (simp add: example_result_def)
  have row1: "row_by_id 1 [example_result] = Some example_result"
    by (simp add: row_by_id_def example_result_def)
  have c1: "r_created_at example_result = Some 100000005"
    by (simp add: example_result_def)
  have elapsed: "15 * 1000000 < (200000000::int) - 100000005" by simp
  have order: "(100000000::int) \<le> 200000000" by simp
  from result_dedupe_window_boundary [OF pk example_first_call id1 row1 c1 elapsed order,
      of 200000003]
  show ?thesis by blast
qed

section \<open>Asymmetric normalisation of the user\<close>

lemma encodings_differ:
  "dumps example_user \<noteq> dumps (JDict [(''raw'', JStr (dumps example_user))])"
  by (simp add: example_user_def encode_basestring_def esc_char_def quote_char_def backslash_def)

lemma example_match:
  "deep_match loads (dumps example_answers) example_user example_result"
  by (simp add: deep_match_def example_result_def cand_user_norm_def example_user_def)

text \<open>
  C10. \<^verbatim>\<open>save_result_sync\<close> wraps an incoming user that is a string as
  \<^verbatim>\<open>{"raw": user}\<close>, while it parses a candidate's stored user that is a string. So
  there is a call that inserts a new row although a candidate within the window has the
  same quiz reference, score, total and answers and a structured user of which the
  incoming user is the JSON encoding: the same call with the structured user reuses the
  candidate, the call with the encoded user stores a second row.
\<close>

theorem asymmetric_user_normalisation:
  "wrap_user (JStr s) = JDict [(''raw'', JStr s)]
   \<and> cand_user_norm loads (JStr s)
       = (case loads s of Some v \<Rightarrow> v | None \<Rightarrow> JDict [(''raw'', JStr s)])
   \<and> save_result_sync loads isoformat NoFault 105000000 105000007 (Some 1) 1 1
         example_answers example_user 15 [example_result]
       = (Inr (JDict (result_dict isoformat example_result @ [deduped_note])), [example_result])
   \<and> save_result_sync loads isoformat NoFault 105000000 105000007 (Some 1) 1 1
         example_answers (JStr (dumps example_user)) 15 [example_result]
       = (Inr (JDict (result_dict isoformat
                \<lparr>r_id = 2, r_quiz_id = Some 1, r_score = 1, r_total = 1,
                 r_answers = example_answers,
                 r_user = JDict [(''raw'', JStr (dumps example_user))],
                 r_created_at = Some 105000007\<rparr>)),
          [example_result,
           \<lparr>r_id = 2, r_quiz_id = Some 1, r_score = 1, r_total = 1,
            r_answers = example_answers,
            r_user = JDict [(''raw'', JStr (dumps example_user))],
            r_created_at = Some 105000007\<rparr>])"
proof (intro conjI)
  show "wrap_user (JStr s) = JDict [(''raw'', JStr s)]"
    by (simp add: wrap_user_def py_str_def)
  show "cand_user_norm loads (JStr s)
       = (case loads s of Some v \<Rightarrow> v | None \<Rightarrow> JDict [(''raw'', JStr s)])"
    by (simp add: cand_user_norm_def)
  have w: "wrap_user example_user = example_user"
    by (simp add: wrap_user_def example_user_def)
  have f: "r_score example_result = 1" "r_total example_result = 1"
    "r_quiz_id example_result = Some 1" "r_created_at example_result = Some 100000005"
    "r_id example_result = 1"
    by (simp_all add: example_result_def)
  show "save_result_sync loads isoformat NoFault 105000000 105000007 (Some 1) 1 1
         example_answers example_user 15 [example_result]
       = (Inr (JDict (result_dict isoformat example_result @ [deduped_note])), [example_result])"
    by (simp add: save_result_sync_def candidates_def is_candidate_def w f example_match)
  have d: "\<not> deep_match loads (dumps example_answers)
      (JDict [(''raw'', JStr (dumps example_user))]) example_result"
    using encodings_differ
    by (simp add: deep_match_def example_result_def cand_user_norm_def user_str_def)
       (simp add: example_user_def)
  show "save_result_sync loads isoformat NoFault 105000000 105000007 (Some 1) 1 1
         example_answers (JStr (dumps example_user)) 15 [example_result]
       = (Inr (JDict (result_dict isoformat
                \<lparr>r_id = 2, r_quiz_id = Some 1, r_score = 1, r_total = 1,
                 r_answers = example_answers,
                 r_user = JDict [(''raw'', JStr (dumps example_user))],
                 r_created_at = Some 105000007\<rparr>)),
          [example_result,
           \<lparr>r_id = 2, r_quiz_id = Some 1, r_score = 1, r_total = 1,
            r_answers = example_answers,
            r_user = JDict [(''raw'', JStr (dumps example_user))],
            r_created_at = Some 105000007\<rparr>])"
    by (simp add: save_result_sync_def candidates_def is_candidate_def f d wrap_user_def
        py_str_def next_id_def Let_def)
qed

section \<open>The normaliser is not total\<close>

text \<open>
  C6. The normaliser is not total: a dictionary whose \<^verbatim>\<open>email\<close> is a number makes
  \<^verbatim>\<open>make_user_key\<close> call \<^verbatim>\<open>strip\<close> on that number, which raises \<^verbatim>\<open>AttributeError\<close>.
  The same happens for every truthy value that is not a string under \<^verbatim>\<open>email\<close>, or
  under \<^verbatim>\<open>name\<close> or \<^verbatim>\<open>raw\<close> when the fields before it are falsy.
\<close>

theorem make_user_key_raises:
  "make_user_key loads (JDict [(''email'', JInt 5)]) = Inl AttributeError"
  by (simp add: make_user_key_def dict_get_def py_or_def strip_lower_def)

text \<open>
  The rest of the fallback chain is as specified: the examples of the specification, a
  falsy input, a string that does not parse, a value that is neither a string nor a
  dictionary, and a dictionary whose three fields are strings or falsy.
\<close>

lemma example_keys:
  "lower (strip ''a@x.com'') = ''a@x.com''"
  "lower (strip ''A'') = ''a''"
  by code_simp+

lemma make_user_key_examples:
  "make_user_key loads (JDict [(''email'', JStr ''a@x.com''), (''name'', JStr ''A'')]) = Inr ''a@x.com''"
  "make_user_key loads (JDict [(''name'', JStr ''A'')]) = Inr ''a''"
  "loads ''A'' = None \<Longrightarrow> make_user_key loads (JStr ''A'') = Inr ''a''"
  "make_user_key loads JNull = Inr []"
  by (simp_all add: make_user_key_def dict_get_def py_or_def strip_lower_def example_keys)

lemma make_user_key_falsy: "\<not> truthy u \<Longrightarrow> make_user_key loads u = Inr []"
  by (simp add: make_user_key_def)

lemma make_user_key_unparsed:
  "s \<noteq> [] \<Longrightarrow> loads s = None \<Longrightarrow> make_user_key loads (JStr s) = Inr (lower (strip s))"
  by (simp add: make_user_key_def)

lemma make_user_key_other:
  "truthy u \<Longrightarrow> (case u of JStr _ \<Rightarrow> False | JDict _ \<Rightarrow> False | _ \<Rightarrow> True)
    \<Longrightarrow> make_user_key loads u = Inr (lower (strip (py_str u)))"
  by (cases u) (simp_all add: make_user_key_def)

lemma py_or_str: "is_str a \<or> \<not> truthy a \<Longrightarrow> is_str b \<Longrightarrow> is_str (py_or a b)"
  by (auto simp: py_or_def)

lemma strip_lower_str: "is_str v \<Longrightarrow> \<exists>key. strip_lower v = Inr key"
  by (cases v) (simp_all add: is_str_def strip_lower_def)

lemma make_user_key_dict_strings:
  assumes "is_str (dict_get kvs ''email'' JNull) \<or> \<not> truthy (dict_get kvs ''email'' JNull)"
    and "is_str (dict_get kvs ''name'' JNull) \<or> \<not> truthy (dict_get kvs ''name'' JNull)"
    and "is_str (dict_get kvs ''raw'' JNull) \<or> \<not> truthy (dict_get kvs ''raw'' JNull)"
  shows "\<exists>key. make_user_key loads (JDict kvs) = Inr key"
proof (cases "kvs = []")
  case True
  then show ?thesis by (simp add: make_user_key_def)
next
  case False
  have "is_str (py_or (dict_get kvs ''email'' JNull)
                 (py_or (dict_get kvs ''name'' JNull)
                   (py_or (dict_get kvs ''raw'' JNull) (JStr []))))"
    using assms by (intro py_or_str) (simp_all add: is_str_def)
  from strip_lower_str [OF this] show ?thesis
    using False by (simp add: make_user_key_def)
qed

section \<open>Properties of the bulk sweep\<close>

lemma sweep_loop_later_duplicates:
  assumes "\<forall>r \<in> set rows. result_key loads isoformat r = Inr (key r)"
  shows "sweep_loop loads isoformat rows seen acc
           = Inr (acc @ map r_id (later_duplicates key rows seen))"
  using assms by (induction rows arbitrary: seen acc) auto

lemma later_duplicates_cong:
  "set seen = set seen' \<Longrightarrow> later_duplicates key rs seen = later_duplicates key rs seen'"
proof (induction rs arbitrary: seen seen')
  case Nil
  then show ?case by simp
next
  case (Cons r rs)
  have "later_duplicates key rs seen = later_duplicates key rs seen'"
    using Cons.prems by (rule Cons.IH)
  moreover have "later_duplicates key rs (key r # seen) = later_duplicates key rs (key r # seen')"
    using Cons.prems by (intro Cons.IH) simp
  ultimately show ?case using Cons.prems by simp
qed

lemma later_duplicates_append:
  "later_duplicates key (xs @ ys) seen
     = later_duplicates key xs seen @ later_duplicates key ys (map key xs @ seen)"
proof (induction xs arbitrary: seen)
  case Nil
  then show ?case by simp
next
  case (Cons x xs)
  show ?case
  proof (cases "key x \<in> set seen")
    case True
    have "later_duplicates key ys (map key xs @ seen)
            = later_duplicates key ys (key x # map key xs @ seen)"
      using True by (intro later_duplicates_cong) auto
    then show ?thesis using True by (simp add: Cons.IH)
  next
    case False
    have "later_duplicates key ys (map key xs @ key x # seen)
            = later_duplicates key ys (key x # map key xs @ seen)"
      by (intro later_duplicates_cong) auto
    then show ?thesis using False by (simp add: Cons.IH)
  qed
qed

lemma later_duplicates_subset: "set (later_duplicates key rs seen) \<subseteq> set rs"
  by (induction rs arbitrary: seen) auto

lemma later_duplicates_mem:
  assumes "distinct (pre @ r # post)"
  shows "r \<in> set (later_duplicates key (pre @ r # post) []) \<longleftrightarrow> key r \<in> key ` set pre"
proof -
  have 1: "r \<notin> set (later_duplicates key pre [])"
    using assms later_duplicates_subset [of key pre "[]"] by auto
  have 2: "r \<notin> set (later_duplicates key post seen)" for seen
    using assms later_duplicates_subset [of key post seen] by auto
  show ?thesis
    by (simp add: later_duplicates_append 1 2)
qed

lemma later_duplicates_none:
  "distinct (map key rs) \<Longrightarrow> set (map key rs) \<inter> set seen = {} \<Longrightarrow> later_duplicates key rs seen = []"
  by (induction rs arbitrary: seen) auto

lemma fold_delete:
  "fold (\<lambda>rid table. filter (\<lambda>r. r_id r \<noteq> rid) table) ids db
     = filter (\<lambda>r. r_id r \<notin> set ids) db"
proof (induction ids arbitrary: db)
  case Nil
  then show ?case by simp
next
  case (Cons i ids)
  show ?case by (simp add: Cons.IH)
qed

lemma last_segment:
  assumes "bar \<notin> set T" "bar \<notin> set T'" "A @ bar # T = A' @ bar # T'"
  shows "T = T'"
proof -
  have "takeWhile (\<lambda>c. c \<noteq> bar) (rev (A @ bar # T)) = rev T"
    using assms(1) by (auto simp: takeWhile_tail takeWhile_eq_all_conv)
  moreover have "takeWhile (\<lambda>c. c \<noteq> bar) (rev (A' @ bar # T')) = rev T'"
    using assms(2) by (auto simp: takeWhile_tail takeWhile_eq_all_conv)
  ultimately show ?thesis using assms(3) by simp
qed

lemma result_key_shape:
  assumes "result_key loads isoformat r = Inr k"
  shows "\<exists>A. k = A @ bar # (case r_created_at r of None \<Rightarrow> [] | Some t \<Rightarrow> isoformat t)"
proof (cases "make_user_key loads (r_user r)")
  case (Inl e)
  then show ?thesis using assms by (simp add: result_key_def)
next
  case (Inr uname)
  then have "k = ((case r_quiz_id r of None \<Rightarrow> ''None'' | Some q \<Rightarrow> int_repr q) @ [bar] @ uname @
      [bar] @ int_repr (r_score r) @ [bar] @ int_repr (r_total r)) @
      bar # (case r_created_at r of None \<Rightarrow> [] | Some t \<Rightarrow> isoformat t)"
    using assms by (simp add: result_key_def)
  then show ?thesis by (rule exI)
qed

lemma keys_differ:
  assumes k: "result_key loads isoformat r = Inr k" and k': "result_key loads isoformat r' = Inr k'"
    and ok: "\<And>t. r_created_at r = Some t \<Longrightarrow> bar \<notin> set (isoformat t) \<and> isoformat t \<noteq> []"
    and ok': "\<And>t. r_created_at r' = Some t \<Longrightarrow> bar \<notin> set (isoformat t) \<and> isoformat t \<noteq> []"
    and inj: "\<And>t t'. r_created_at r = Some t \<Longrightarrow> r_created_at r' = Some t'
                \<Longrightarrow> isoformat t = isoformat t' \<Longrightarrow> t = t'"
    and diff: "r_created_at r \<noteq> r_created_at r'"
  shows "k \<noteq> k'"
proof
  assume eq: "k = k'"
  let ?T = "case r_created_at r of None \<Rightarrow> [] | Some t \<Rightarrow> isoformat t"
  let ?T' = "case r_created_at r' of None \<Rightarrow> [] | Some t \<Rightarrow> isoformat t"
  obtain A where A: "k = A @ bar # ?T"
    using result_key_shape [OF k] by blast
  obtain A' where A': "k' = A' @ bar # ?T'"
    using result_key_shape [OF k'] by blast
  have b: "bar \<notin> set ?T" using ok by (cases "r_created_at r") simp_all
  have b': "bar \<notin> set ?T'" using ok' by (cases "r_created_at r'") simp_all
  have "A @ bar # ?T = A' @ bar # ?T'" using eq A A' by simp
  from last_segment [OF b b' this] have T: "?T = ?T'" .
  show False
  proof (cases "r_created_at r")
    case None
    then obtain t' where t': "r_created_at r' = Some t'" using diff by (cases "r_created_at r'") auto
    then show False using T None ok' [OF t'] by simp
  next
    case (Some t)
    show False
    proof (cases "r_created_at r'")
      case None
      then show False using T Some ok [OF Some] by simp
    next
      case (Some t')
      then have "isoformat t = isoformat t'" using T \<open>r_created_at r = Some t\<close> by simp
      from inj [OF \<open>r_created_at r = Some t\<close> Some this] show False
        using diff Some \<open>r_created_at r = Some t\<close> by simp
    qed
  qed
qed

lemma int_reprs:
  "int_repr 1 = ''1''" "int_repr 3 = ''3''" "int_repr 5 = ''5''"
  "int_repr 1000000 = ''1000000''" "int_repr 2000000 = ''2000000''"
  by (simp_all add: int_repr_def digit_char_def)

lemma user_keys:
  "lower (strip ''a@x.com'') = ''a@x.com''"
  "lower (strip ''A@x.com'') = ''a@x.com''"
  by code_simp+

lemma keys:
  "result_key no_parse int_repr (sweep_db ! 0) = Inr ''1|a@x.com|3|5|1000000''"
  "result_key no_parse int_repr (sweep_db ! 1) = Inr ''1|a@x.com|3|5|1000000''"
  "result_key no_parse int_repr (sweep_db ! 2) = Inr ''1|a@x.com|3|5|1000000''"
  "result_key no_parse int_repr (sweep_db ! 3) = Inr ''1|a@x.com|3|5|2000000''"
  by (simp_all add: sweep_db_def result_key_def make_user_key_def dict_get_def py_or_def
      strip_lower_def user_keys int_reprs bar_def)

lemma removed_id_iff:
  assumes pk: "distinct (map r_id db)" and sub: "set D \<subseteq> set db" and r: "r \<in> set db"
  shows "r_id r \<in> set (map r_id D) \<longleftrightarrow> r \<in> set D"
proof -
  have "inj_on r_id (set db)" using pk by (simp add: distinct_map)
  then show ?thesis using sub r by (auto simp: inj_on_def)
qed

lemma more_int_reprs: "int_repr 2 = ''2''" "digit_char (Suc (Suc 0)) = CHR ''2''"
  by (simp_all add: int_repr_def digit_char_def)

text \<open>
  C7, as stated, fails: \<^verbatim>\<open>cleanup\<close> returns \<^verbatim>\<open>None\<close>, not the list of removed ids; it
  prints that list. On the example table it removes the rows 2 and 3, keeps 1 and 4,
  prints \<^verbatim>\<open>Duplicates removed: [2, 3]\<close> and returns \<^verbatim>\<open>None\<close>.
\<close>

theorem sweep_returns_nothing:
  "\<exists>out. cleanup no_parse int_repr sweep_db = Inr out
      \<and> returned out = JNull
      \<and> returned out \<noteq> JList [JInt 2, JInt 3]
      \<and> printed out = [''Found 2 duplicate result(s). Deleting...'',
                        ''Duplicates removed: [2, 3]'']
      \<and> map r_id (remaining out) = [1, 4]"
  by (simp add: cleanup_def sweep_db_def result_key_def make_user_key_def dict_get_def py_or_def
      strip_lower_def user_keys int_reprs more_int_reprs bar_def Let_def)

text \<open>
  C7, amended. On a table with distinct primary keys where the normaliser resolves the
  user of every row (\<open>key r\<close> is the key of row \<open>r\<close>), \<^verbatim>\<open>cleanup\<close> returns \<^verbatim>\<open>None\<close>,
  prints the removed ids and deletes exactly the rows with those ids; reading the rows
  ordered by creation time, then id, a row is removed exactly when its key is the key of
  a row before it, so the first row of each key is kept and every later one is deleted.
  Two rows whose creation times differ have different keys, and when all creation times
  differ every row is kept. \<^verbatim>\<open>isoformat\<close> is injective on the creation times of the
  table and gives non-empty texts with no bar.
\<close>

theorem sweep_keeps_first_of_each_key:
  assumes pk: "distinct (map r_id db)"
    and keys: "\<forall>r \<in> set db. result_key loads isoformat r = Inr (key r)"
    and iso: "\<forall>r \<in> set db. \<forall>t. r_created_at r = Some t
                \<longrightarrow> bar \<notin> set (isoformat t) \<and> isoformat t \<noteq> []"
    and inj: "inj_on isoformat {t. \<exists>r \<in> set db. r_created_at r = Some t}"
  shows "\<exists>out removed.
      cleanup loads isoformat db = Inr out
    \<and> returned out = JNull
    \<and> remaining out = filter (\<lambda>r. r_id r \<notin> set removed) db
    \<and> printed out =
        (if removed = [] then [''No duplicate results found.'']
         else [''Found '' @ digits (length removed) @ '' duplicate result(s). Deleting...'',
               ''Duplicates removed: '' @ py_repr (JList (map JInt removed))])
    \<and> (\<forall>pre r post. sort_key (\<lambda>r. (r_created_at r, r_id r)) db = pre @ r # post
          \<longrightarrow> (r_id r \<in> set removed \<longleftrightarrow> key r \<in> key ` set pre))
    \<and> (\<forall>r \<in> set db. \<forall>r' \<in> set db. r_created_at r \<noteq> r_created_at r' \<longrightarrow> key r \<noteq> key r')
    \<and> ((\<forall>r \<in> set db. \<forall>r' \<in> set db. r \<noteq> r' \<longrightarrow> r_created_at r \<noteq> r_created_at r')
          \<longrightarrow> remaining out = db)"
proof -
  let ?rows = "sort_key (\<lambda>r. (r_created_at r, r_id r)) db"
  let ?D = "later_duplicates key ?rows []"
  let ?removed = "map r_id ?D"
  let ?out = "if ?removed = []
      then \<lparr>returned = JNull, printed = [''No duplicate results found.''], remaining = db\<rparr>
      else \<lparr>returned = JNull,
            printed = [''Found '' @ digits (length ?removed) @ '' duplicate result(s). Deleting...'',
                       ''Duplicates removed: '' @ py_repr (JList (map JInt ?removed))],
            remaining = filter (\<lambda>r. r_id r \<notin> set ?removed) db\<rparr>"
  have ddb: "distinct db" using pk by (simp add: distinct_map)
  have drows: "distinct ?rows" using ddb by simp
  have srows: "set ?rows = set db" by simp
  have loop: "sweep_loop loads isoformat ?rows [] [] = Inr ?removed"
    using sweep_loop_later_duplicates [of ?rows loads isoformat key "[]" "[]"] keys by simp
  have c: "cleanup loads isoformat db = Inr ?out"
    by (simp add: cleanup_def loop fold_delete Let_def)
  have r: "returned ?out = JNull" by simp
  have m: "remaining ?out = filter (\<lambda>r. r_id r \<notin> set ?removed) db"
    by (cases "?D = []") simp_all
  have p: "printed ?out =
        (if ?removed = [] then [''No duplicate results found.'']
         else [''Found '' @ digits (length ?removed) @ '' duplicate result(s). Deleting...'',
               ''Duplicates removed: '' @ py_repr (JList (map JInt ?removed))])"
    by simp
  have sub: "set ?D \<subseteq> set db"
    using later_duplicates_subset [of key ?rows "[]"] by simp
  have first: "r_id r \<in> set ?removed \<longleftrightarrow> key r \<in> key ` set pre"
    if split: "?rows = pre @ r # post" for pre r post
  proof -
    have "r \<in> set ?rows" by (simp add: split)
    then have rdb: "r \<in> set db" by simp
    have "r_id r \<in> set ?removed \<longleftrightarrow> r \<in> set ?D"
      using pk sub rdb by (rule removed_id_iff)
    also have "\<dots> \<longleftrightarrow> key r \<in> key ` set pre"
      using later_duplicates_mem [of pre r post key] drows by (simp add: split)
    finally show ?thesis .
  qed
  have differ: "key r \<noteq> key r'"
    if "r \<in> set db" "r' \<in> set db" "r_created_at r \<noteq> r_created_at r'" for r r'
  proof (rule keys_differ)
    show "result_key loads isoformat r = Inr (key r)" using keys that by simp
    show "result_key loads isoformat r' = Inr (key r')" using keys that by simp
    show "bar \<notin> set (isoformat t) \<and> isoformat t \<noteq> []" if "r_created_at r = Some t" for t
      using iso that \<open>r \<in> set db\<close> by blast
    show "bar \<notin> set (isoformat t) \<and> isoformat t \<noteq> []" if "r_created_at r' = Some t" for t
      using iso that \<open>r' \<in> set db\<close> by blast
    show "t = t'" if "r_created_at r = Some t" "r_created_at r' = Some t'"
      "isoformat t = isoformat t'" for t t'
      using inj that \<open>r \<in> set db\<close> \<open>r' \<in> set db\<close> by (auto simp: inj_on_def)
    show "r_created_at r \<noteq> r_created_at r'" by fact
  qed
  have kept: "remaining ?out = db"
    if apart: "\<forall>r \<in> set db. \<forall>r' \<in> set db. r \<noteq> r' \<longrightarrow> r_created_at r \<noteq> r_created_at r'"
  proof -
    have "inj_on key (set ?rows)"
      unfolding srows using apart differ by (auto simp: inj_on_def)
    then have "distinct (map key ?rows)" using drows by (simp add: distinct_map)
    then have "?D = []" by (intro later_duplicates_none) simp_all
    then show ?thesis by simp
  qed
  show ?thesis
    using c r m p first differ kept by (intro exI [of _ ?out] exI [of _ ?removed]) blast
qed

theorem sweep_keeps_first_of_each_key_witness:
  "\<exists>out removed.
      cleanup no_parse int_repr sweep_db = Inr out
    \<and> returned out = JNull
    \<and> remaining out = filter (\<lambda>r. r_id r \<notin> set removed) sweep_db
    \<and> (\<forall>pre r post. sort_key (\<lambda>r. (r_created_at r, r_id r)) sweep_db = pre @ r # post
          \<longrightarrow> (r_id r \<in> set removed \<longleftrightarrow>
                (case result_key no_parse int_repr r of Inr k \<Rightarrow> k | Inl e \<Rightarrow> [])
                  \<in> (\<lambda>r. case result_key no_parse int_repr r of Inr k \<Rightarrow> k | Inl e \<Rightarrow> []) ` set pre))"
proof -
  have pk: "distinct (map r_id sweep_db)" by (simp add: sweep_db_def)
  have keys: "\<forall>r \<in> set sweep_db. result_key no_parse int_repr r
      = Inr (case result_key no_parse int_repr r of Inr k \<Rightarrow> k | Inl e \<Rightarrow> [])"
    by (simp add: sweep_db_def result_key_def make_user_key_def dict_get_def py_or_def
        strip_lower_def)
  have iso: "\<forall>r \<in> set sweep_db. \<forall>t. r_created_at r = Some t
      \<longrightarrow> bar \<notin> set (int_repr t) \<and> int_repr t \<noteq> []"
    by (simp add: sweep_db_def int_reprs bar_def)
  have inj: "inj_on int_repr {t. \<exists>r \<in> set sweep_db. r_created_at r = Some t}"
    by (auto simp: inj_on_def sweep_db_def int_reprs)
  from sweep_keeps_first_of_each_key [OF pk keys iso inj]
  show ?thesis by blast
qed

section \<open>Properties of grading and submit\<close>

lemma grade_one_flag:
  "grade_one answers idx q = Inr (ok, entry) \<Longrightarrow> is_correct_entry entry = ok"
  by (cases q) (auto simp: grade_one_def is_correct_entry_def Let_def)

lemma grade_loop_entries:
  "grade_loop answers idx qs score detailed = Inr (score', detailed')
   \<Longrightarrow> \<exists>entries. detailed' = detailed @ entries \<and> length entries = length qs
         \<and> score' = score + int (length (filter is_correct_entry entries))"
proof (induction qs arbitrary: idx score detailed)
  case Nil
  then show ?case by simp
next
  case (Cons q qs)
  from Cons.prems obtain ok entry where one: "grade_one answers idx q = Inr (ok, entry)"
    and rest: "grade_loop answers (Suc idx) qs (if ok then score + 1 else score)
                 (detailed @ [entry]) = Inr (score', detailed')"
    by (auto split: sum.splits)
  from Cons.IH [OF rest] obtain entries where e: "detailed' = (detailed @ [entry]) @ entries"
    "length entries = length qs"
    "score' = (if ok then score + 1 else score) + int (length (filter is_correct_entry entries))"
    by blast
  have "is_correct_entry entry = ok" using one by (rule grade_one_flag)
  then show ?case using e
    by (intro exI [of _ "entry # entries"]) auto
qed

lemma save_result_store:
  "snd (save_result_sync loads isoformat fault now ins q s t a u w db) = db
   \<or> snd (save_result_sync loads isoformat fault now ins q s t a u w db)
       = db @ [new_result db q s t a u ins]"
  by (simp add: save_result_sync_def new_result_def Let_def split: db_fault.splits option.splits)

lemma save_result_raises:
  "fst (save_result_sync loads isoformat fault now ins q s t a u w db) = Inl e
   \<Longrightarrow> snd (save_result_sync loads isoformat fault now ins q s t a u w db) = db"
  by (simp add: save_result_sync_def Let_def split: db_fault.splits option.splits)

lemma find_mem: "find P xs = Some x \<Longrightarrow> x \<in> set xs"
  by (induction xs) (auto split: if_splits)

lemma load_questions_valid:
  assumes "questions_validated (quizzes, questions_file)"
    and "load_questions quizzes questions_file quiz_id = Inr v"
  shows "valid_questions v"
proof (cases "quiz_id \<noteq> None \<and> quiz_id \<noteq> Some 0")
  case True
  then obtain q where "find (\<lambda>q. Some (q_id q) = quiz_id) quizzes = Some q" "v = q_questions q"
    using assms(2) by (auto simp: load_questions_def split: option.splits)
  then show ?thesis using assms(1) find_mem [of _ quizzes q]
    by (auto simp: questions_validated_def list_all_iff)
next
  case False
  then show ?thesis using assms
    by (auto simp: load_questions_def questions_validated_def split: file_state.splits)
qed

lemma example_strings:
  "strip '' 4 '' = ''4''" "strip ''4'' = ''4''" "lower ''4'' = ''4''"
  by code_simp+

lemma example_load:
  "load_questions [legacy_quiz, placeholder_quiz] Missing (p_quiz_id example_request)
     = Inr example_questions"
  by (simp add: load_questions_def example_request_def legacy_quiz_def placeholder_quiz_def)

lemma example_iterate:
  "iterate example_questions = Inr [JDict [(''question'', JStr ''2+2?''),
      (''options'', JList [JStr ''1'', JStr ''2'', JStr ''3'', JStr ''4'']),
      (''correct_answer'', JStr ''4'')]]"
  by (simp add: iterate_def example_questions_def)

lemma example_grade:
  "grade_loop (p_answers example_request) 0 [JDict [(''question'', JStr ''2+2?''),
      (''options'', JList [JStr ''1'', JStr ''2'', JStr ''3'', JStr ''4'']),
      (''correct_answer'', JStr ''4'')]] 0 [] = Inr (1, example_detailed)"
  by (simp add: example_request_def grade_one_def user_answer_def py_or_def dict_get_def
      py_str_def example_strings example_detailed_def Let_def)

text \<open>
  C8. When saving the result raises (the query or the commit of \<^verbatim>\<open>save_result_sync\<close>
  fails with message \<open>e\<close>), a request that was graded still gets a JSON response, not an
  error response: the score, the total and the detailed list that were computed, with a
  \<^verbatim>\<open>saved_result\<close> that repeats them and carries the message under \<^verbatim>\<open>error_saving\<close>;
  nothing is stored.
\<close>

theorem result_save_failure_downgraded:
  assumes ans: "is_dict_or_list (p_answers request)"
    and lq: "load_questions quizzes questions_file (p_quiz_id request) = Inr questions_data"
    and it: "iterate questions_data = Inr questions"
    and gr: "grade_loop (p_answers request) 0 questions 0 [] = Inr (score, detailed)"
    and fail: "fst (save_result_sync loads isoformat fault now ins (p_quiz_id request) score
                 (int (length questions)) (JList detailed) (p_user request) 15 results) = Inl e"
  shows "submit_answers loads isoformat fault now ins quizzes questions_file request results
     = (JSONResponse
          (JDict [(''score'', JInt score), (''total'', JInt (int (length questions))),
                  (''detailed'', JList detailed),
                  (''saved_result'',
                     JDict [(''score'', JInt score), (''total'', JInt (int (length questions))),
                            (''detailed'', JList detailed), (''error_saving'', JStr e)])]),
        results)"
proof -
  obtain outcome results' where s: "save_result_sync loads isoformat fault now ins
      (p_quiz_id request) score (int (length questions)) (JList detailed) (p_user request) 15
      results = (outcome, results')"
    by (cases "save_result_sync loads isoformat fault now ins (p_quiz_id request) score
      (int (length questions)) (JList detailed) (p_user request) 15 results")
  have o: "outcome = Inl e" using fail s by simp
  have r: "results' = results" using save_result_raises [OF fail] s by simp
  show ?thesis
    by (simp add: submit_answers_def ans lq it gr s o r response_payload_def unsaved_result_def Let_def)
qed

theorem result_save_failure_downgraded_witness:
  "submit_answers no_parse int_repr (CommitFails ''database is locked'') 100000000 100000005
       [legacy_quiz, placeholder_quiz] Missing example_request []
     = (JSONResponse
          (JDict [(''score'', JInt 1), (''total'', JInt 1), (''detailed'', JList example_detailed),
                  (''saved_result'',
                     JDict [(''score'', JInt 1), (''total'', JInt 1),
                            (''detailed'', JList example_detailed),
                            (''error_saving'', JStr ''database is locked'')])]),
        [])"
proof -
  have ans: "is_dict_or_list (p_answers example_request)"
    by (simp add: is_dict_or_list_def example_request_def)
  have fail: "fst (save_result_sync no_parse int_repr (CommitFails ''database is locked'')
      100000000 100000005 (p_quiz_id example_request) 1
      (int (length [JDict [(''question'', JStr ''2+2?''),
        (''options'', JList [JStr ''1'', JStr ''2'', JStr ''3'', JStr ''4'']),
        (''correct_answer'', JStr ''4'')]]))
      (JList example_detailed) (p_user example_request) 15 []) = Inl ''database is locked''"
    by (simp add: save_result_sync_def candidates_def Let_def)
  from result_save_failure_downgraded [OF ans example_load example_iterate example_grade fail]
  show ?thesis by simp
qed

text \<open>
  The quizzes and the questions file that the backend writes hold validated question
  lists: the empty state does, and \<^verbatim>\<open>save_questions_and_db_async\<close> keeps it so.
\<close>

lemma validated_initially: "questions_validated ([], Missing)"
  by (simp add: questions_validated_def)

lemma valid_question_dict: "valid_question q \<Longrightarrow> valid_question (question_dict q)"
  by (auto simp: valid_question_def question_dict_def dict_get_def
      split: json.splits option.splits)

lemma valid_questions_dicts: "valid_questions qs \<Longrightarrow> valid_questions (questions_dicts qs)"
  by (cases qs) (auto simp: valid_questions_def questions_dicts_def list_all_iff valid_question_dict)

lemma save_quiz_keeps_validated:
  assumes "list_all (\<lambda>q. valid_questions (q_questions q)) db" and "valid_questions qs"
  shows "list_all (\<lambda>q. valid_questions (q_questions q)) (snd (save_quiz_to_db_sync H now title qs db))"
  using assms
  by (auto simp: save_quiz_to_db_sync_def Let_def list_all_iff split: option.splits)

lemma validated_preserved:
  assumes "questions_validated state"
    and "save_questions_and_db_async H now title questions state = Inr (quiz_id, quizzes, file)"
  shows "questions_validated (quizzes, file)"
proof -
  have v: "valid_questions questions"
    using assms(2) by (auto simp: save_questions_and_db_async_def split: if_splits)
  then have v': "valid_questions (questions_dicts questions)" by (rule valid_questions_dicts)
  have q: "quizzes = snd (save_quiz_to_db_sync H now title (questions_dicts questions) (fst state))"
    and f: "file = Holds (questions_dicts questions)"
    using assms(2) v by (auto simp: save_questions_and_db_async_def split: prod.splits)
  have "list_all (\<lambda>q. valid_questions (q_questions q)) (fst state)"
    using assms(1) by (simp add: questions_validated_def)
  from save_quiz_keeps_validated [OF this v', of H now title] show ?thesis
    by (simp add: questions_validated_def q f v')
qed

text \<open>
  C9. Every result row that \<^verbatim>\<open>submit_answers\<close> creates has a score between 0 and its
  total, a positive total equal to the number of questions graded, one detailed entry for
  each question, and a score equal to the number of detailed entries whose
  \<^verbatim>\<open>isCorrect\<close> flag is true. The questions graded come from a quiz or a questions file
  that passed the schema, as everything the backend stores has.
\<close>

theorem graded_result_invariants:
  assumes inv: "questions_validated (quizzes, questions_file)"
    and sub: "submit_answers loads isoformat fault now ins quizzes questions_file request results
                = (resp, results')"
    and created: "results' \<noteq> results"
  shows "\<exists>r questions detailed.
      results' = results @ [r]
    \<and> load_questions quizzes questions_file (p_quiz_id request) = Inr (JList questions)
    \<and> r_answers r = JList detailed
    \<and> 0 \<le> r_score r \<and> r_score r \<le> r_total r
    \<and> 0 < r_total r \<and> r_total r = int (length questions)
    \<and> length detailed = length questions
    \<and> r_score r = int (length (filter is_correct_entry detailed))"
proof -
  from sub created have ans: "is_dict_or_list (p_answers request)"
    by (auto simp: submit_answers_def split: if_splits)
  from sub created ans obtain qd where lq:
    "load_questions quizzes questions_file (p_quiz_id request) = Inr qd"
    by (cases "load_questions quizzes questions_file (p_quiz_id request)")
       (auto simp: submit_answers_def)
  have "valid_questions qd" using inv lq by (rule load_questions_valid)
  then obtain questions where qd: "qd = JList questions" and ne: "questions \<noteq> []"
    by (cases qd) (auto simp: valid_questions_def)
  have it: "iterate qd = Inr questions" by (simp add: qd iterate_def)
  from sub created ans lq it obtain score detailed where
    gr: "grade_loop (p_answers request) 0 questions 0 [] = Inr (score, detailed)"
    by (cases "grade_loop (p_answers request) 0 questions 0 []")
       (auto simp: submit_answers_def)
  let ?save = "save_result_sync loads isoformat fault now ins (p_quiz_id request) score
      (int (length questions)) (JList detailed) (p_user request) 15 results"
  have r': "results' = snd ?save"
    using sub by (simp add: submit_answers_def ans lq it gr Let_def split: prod.splits)
  let ?r = "new_result results (p_quiz_id request) score (int (length questions))
      (JList detailed) (p_user request) ins"
  have app: "results' = results @ [?r]"
    using save_result_store [of loads isoformat fault now ins "p_quiz_id request" score
        "int (length questions)" "JList detailed" "p_user request" 15 results] created r'
    by auto
  from grade_loop_entries [OF gr] have len: "length detailed = length questions"
    and sc: "score = int (length (filter is_correct_entry detailed))"
    by auto
  have "length (filter is_correct_entry detailed) \<le> length detailed"
    by (rule length_filter_le)
  then have le: "score \<le> int (length questions)" using sc len by simp
  show ?thesis
    using app lq qd len sc le ne
    by (intro exI [of _ ?r] exI [of _ questions] exI [of _ detailed])
       (simp add: new_result_def)
qed

theorem graded_result_invariants_witness:
  "\<exists>r questions detailed.
      snd (submit_answers no_parse int_repr NoFault 100000000 100000005
        [legacy_quiz, placeholder_quiz] Missing example_request []) = [] @ [r]
    \<and> load_questions [legacy_quiz, placeholder_quiz] Missing (p_quiz_id example_request)
        = Inr (JList questions)
    \<and> r_answers r = JList detailed
    \<and> 0 \<le> r_score r \<and> r_score r \<le> r_total r
    \<and> 0 < r_total r \<and> r_total r = int (length questions)
    \<and> length detailed = length questions
    \<and> r_score r = int (length (filter is_correct_entry detailed))"
proof -
  have inv: "questions_validated ([legacy_quiz, placeholder_quiz], Missing)"
    by (simp add: questions_validated_def legacy_quiz_def placeholder_quiz_def
        example_questions_def valid_questions_def valid_question_def is_str_def)
  have sub: "submit_answers no_parse int_repr NoFault 100000000 100000005
        [legacy_quiz, placeholder_quiz] Missing example_request []
      = (fst (submit_answers no_parse int_repr NoFault 100000000 100000005
           [legacy_quiz, placeholder_quiz] Missing example_request []),
         snd (submit_answers no_parse int_repr NoFault 100000000 100000005
           [legacy_quiz, placeholder_quiz] Missing example_request []))"
    by simp
  have created: "snd (submit_answers no_parse int_repr NoFault 100000000 100000005
        [legacy_quiz, placeholder_quiz] Missing example_request []) \<noteq> []"
    by (simp add: submit_answers_def is_dict_or_list_def example_load example_iterate
        example_grade save_result_sync_def candidates_def Let_def del: grade_loop.simps)
       (simp add: example_request_def)
  from graded_result_invariants [OF inv sub created] show ?thesis .
qed

section \<open>Properties of fingerprints\<close>

lemma length_join_replicate:
  "length (join sep (replicate (Suc n) x)) = Suc n * length x + n * length sep"
  by (induction n) simp_all

lemma dumps_replicate_length:
  "length (dumps (JList (replicate (Suc n) q))) = 2 + Suc n * length (dumps q) + n"
  using length_join_replicate [of "'',''" n "dumps q"] by simp

lemma dumps_replicate_inj:
  assumes "dumps (JList (replicate (Suc n) q)) = dumps (JList (replicate (Suc m) q))"
  shows "n = m"
proof -
  have "Suc n * length (dumps q) + n = Suc m * length (dumps q) + m"
    using arg_cong [OF assms, of length] by (simp only: dumps_replicate_length)
  then have "n * Suc (length (dumps q)) = m * Suc (length (dumps q))" by simp
  then have "n = m \<or> Suc (length (dumps q)) = 0" by (simp only: mult_cancel2)
  then show ?thesis by simp
qed

lemma valid_example_question: "valid_question example_question"
  by (simp add: example_question_def valid_question_def is_str_def)

lemma valid_replicate: "valid_questions (JList (replicate (Suc n) example_question))"
  by (simp add: valid_questions_def valid_example_question list_all_iff)

lemma digest_collision:
  fixes f :: "nat \<Rightarrow> 256 word"
  shows "\<exists>n m. n \<noteq> m \<and> f n = f m"
proof (rule ccontr)
  assume "\<not> (\<exists>n m. n \<noteq> m \<and> f n = f m)"
  then have "inj f" by (auto simp: inj_on_def)
  moreover have "finite (range f)" by (rule finite_subset [of _ UNIV]) simp_all
  ultimately have "finite (UNIV :: nat set)" by (rule finite_imageD [rotated])
  then show False by simp
qed

text \<open>
  C4, as stated, fails in its ``only if'' half: a digest has 256 bits, so whatever the
  digest function is, there are two valid question lists with different canonical
  encodings and the same fingerprint.
\<close>

theorem fingerprint_collision:
  "\<forall>H. \<exists>Q Q'. valid_questions Q \<and> valid_questions Q' \<and> dumps Q \<noteq> dumps Q'
         \<and> questions_fingerprint H Q = questions_fingerprint H Q'"
proof
  fix H :: "string \<Rightarrow> 256 word"
  let ?Q = "\<lambda>n. JList (replicate (Suc n) example_question)"
  obtain n m where nm: "n \<noteq> m"
    and eq: "H (utf8_encode (dumps (?Q n))) = H (utf8_encode (dumps (?Q m)))"
    using digest_collision [of "\<lambda>n. H (utf8_encode (dumps (?Q n)))"] by blast
  have "dumps (?Q n) \<noteq> dumps (?Q m)" using nm dumps_replicate_inj by blast
  moreover have "questions_fingerprint H (?Q n) = questions_fingerprint H (?Q m)"
    using eq by (simp add: questions_fingerprint_def)
  ultimately show "\<exists>Q Q'. valid_questions Q \<and> valid_questions Q' \<and> dumps Q \<noteq> dumps Q'
         \<and> questions_fingerprint H Q = questions_fingerprint H Q'"
    using valid_replicate by blast
qed

lemma sort_keys_permuted:
  assumes "distinct (map fst kvs)" and "mset kvs = mset kvs'"
  shows "sort_key fst kvs = sort_key fst kvs'"
proof (rule sort_key_inj_key_eq)
  show "mset kvs = mset (sort_key fst kvs')" using assms(2) by simp
  show "inj_on fst (set kvs)" using assms(1) by (simp add: distinct_map)
  show "sorted (map fst (sort_key fst kvs'))" by simp
qed

lemma dumps_keys_permuted:
  assumes "distinct (map fst kvs)" and "mset kvs = mset kvs'"
  shows "dumps (JDict kvs) = dumps (JDict kvs')"
  using sort_keys_permuted [OF assms] by simp

lemma dumps_questions_permuted:
  assumes "list_all2 keys_permuted qs qs'"
  shows "dumps (JList qs) = dumps (JList qs')"
proof -
  have "map dumps qs = map dumps qs'"
    using assms
  proof (induction rule: list_all2_induct)
    case Nil
    then show ?case by simp
  next
    case (Cons q qs q' qs')
    obtain kvs kvs' where "q = JDict kvs" "q' = JDict kvs'" "distinct (map fst kvs)"
      "mset kvs = mset kvs'"
      using Cons.hyps(1) by (auto simp: keys_permuted_def split: json.splits)
    then have "dumps q = dumps q'" using dumps_keys_permuted by blast
    then show ?case using Cons.IH by simp
  qed
  then show ?thesis by simp
qed

lemma hex_digit_inj:
  assumes "a < 16" "b < 16" "hex_digit a = hex_digit b"
  shows "a = b"
proof -
  have d: "distinct ''0123456789abcdef''" by simp
  have "length ''0123456789abcdef'' = 16" by simp
  then show ?thesis
    using assms nth_eq_iff_index_eq [OF d, of a b] by (simp add: hex_digit_def)
qed

lemma hex_pair_inj:
  assumes "hex_digit (n div 16) = hex_digit (m div 16)" "hex_digit (n mod 16) = hex_digit (m mod 16)"
    "n < 32" "m < 32"
  shows "n = m"
proof -
  have "n div 16 = m div 16" using assms by (intro hex_digit_inj) simp_all
  moreover have "n mod 16 = m mod 16" using assms by (intro hex_digit_inj) simp_all
  ultimately show ?thesis by (metis div_mult_mod_eq)
qed

lemma esc_char_not_quote: "esc_char c @ X \<noteq> quote_char # Y"
  by (simp add: esc_char_def quote_char_def backslash_def)

lemma esc_char_unique:
  assumes "esc_char c @ X = esc_char c' @ X'"
  shows "c = c' \<and> X = X'"
proof -
  have u: "c = c'" if "hex_digit (of_char c div 16) = hex_digit (of_char c' div 16)"
    "hex_digit (of_char c mod 16) = hex_digit (of_char c' mod 16)"
    "(of_char c :: nat) < 32" "(of_char c' :: nat) < 32"
  proof -
    have "(of_char c :: nat) = of_char c'" using that by (rule hex_pair_inj)
    then show ?thesis by simp
  qed
  show ?thesis
    using assms u
    by (simp add: esc_char_def quote_char_def backslash_def split: if_splits)
qed

lemma escaped_unique:
  "concat (map esc_char s) @ quote_char # r = concat (map esc_char s') @ quote_char # r'
   \<Longrightarrow> s = s' \<and> r = r'"
proof (induction s arbitrary: s')
  case Nil
  then show ?case
    by (cases s') (auto simp: esc_char_not_quote [symmetric] dest: sym)
next
  case (Cons c s)
  show ?case
  proof (cases s')
    case Nil
    then show ?thesis using Cons.prems esc_char_not_quote [of c] by auto
  next
    case (Cons c' t)
    have "esc_char c @ (concat (map esc_char s) @ quote_char # r)
            = esc_char c' @ (concat (map esc_char t) @ quote_char # r')"
      using Cons.prems Cons by simp
    then have "c = c'" and "concat (map esc_char s) @ quote_char # r
                 = concat (map esc_char t) @ quote_char # r'"
      using esc_char_unique by blast+
    then show ?thesis using Cons.IH Cons by simp
  qed
qed

lemma encode_basestring_unique:
  "encode_basestring s @ r = encode_basestring s' @ r' \<Longrightarrow> s = s' \<and> r = r'"
  using escaped_unique [of s r s' r'] by (simp add: encode_basestring_def)

lemma join_Cons: "join sep (x # xs) = x @ (if xs = [] then [] else sep @ join sep xs)"
  by (cases xs) simp_all

lemma joined_unique:
  assumes uniq: "\<And>x y X Y. D x @ X = D y @ Y \<Longrightarrow> x = y \<and> X = Y"
    and start: "\<And>x X Y. D x @ X \<noteq> CHR '']'' # Y"
  shows "join '','' (map D xs) @ CHR '']'' # r = join '','' (map D ys) @ CHR '']'' # r'
         \<Longrightarrow> xs = ys \<and> r = r'"
proof (induction xs arbitrary: ys)
  case Nil
  then show ?case
    by (cases ys) (auto simp: join_Cons start [symmetric] dest: sym)
next
  case (Cons x xs)
  show ?case
  proof (cases ys)
    case Nil
    then show ?thesis using Cons.prems start [of x] by (auto simp: join_Cons)
  next
    case (Cons y zs)
    let ?R = "\<lambda>xs r. (if xs = [] then [] else '','' @ join '','' (map D xs)) @ CHR '']'' # r"
    have "D x @ ?R xs r = D y @ ?R zs r'"
      using Cons.prems Cons by (simp add: join_Cons)
    then have xy: "x = y" and R: "?R xs r = ?R zs r'"
      using uniq by blast+
    have "xs = zs \<and> r = r'"
    proof (cases "xs = []")
      case True
      then show ?thesis using R by (cases "zs = []") auto
    next
      case False
      then have "zs \<noteq> []" using R by (cases "zs = []") auto
      then have "join '','' (map D xs) @ CHR '']'' # r = join '','' (map D zs) @ CHR '']'' # r'"
        using R False by simp
      then show ?thesis by (rule Cons.IH)
    qed
    then show ?thesis using xy Cons by simp
  qed
qed

lemma encode_basestring_start: "encode_basestring s @ X \<noteq> CHR '']'' # Y"
  by (simp add: encode_basestring_def quote_char_def)

lemma options_unique:
  "join '','' (map encode_basestring os) @ CHR '']'' # r
     = join '','' (map encode_basestring os') @ CHR '']'' # r' \<Longrightarrow> os = os' \<and> r = r'"
  by (rule joined_unique [of encode_basestring])
     (auto dest: encode_basestring_unique simp: encode_basestring_start)

lemma dumps_schema_question:
  "dumps (schema_question (t, opts, c))
     = CHR ''{'' # encode_basestring ''correct_answer'' @ CHR '':'' # encode_basestring c @
       CHR '','' # encode_basestring ''options'' @ CHR '':'' # CHR ''['' #
       join '','' (map encode_basestring opts) @ CHR '']'' #
       CHR '','' # encode_basestring ''question'' @ CHR '':'' # encode_basestring t @ ''}''"
  by (simp add: schema_question_def comp_def)

lemma schema_question_unique:
  assumes "dumps (schema_question x) @ X = dumps (schema_question y) @ Y"
  shows "x = y \<and> X = Y"
proof -
  obtain t opts c where x: "x = (t, opts, c)" by (cases x)
  obtain t' opts' c' where y: "y = (t', opts', c')" by (cases y)
  from assms have 1: "encode_basestring c @
       CHR '','' # encode_basestring ''options'' @ CHR '':'' # CHR ''['' #
       join '','' (map encode_basestring opts) @ CHR '']'' #
       CHR '','' # encode_basestring ''question'' @ CHR '':'' # encode_basestring t @ ''}'' @ X
     = encode_basestring c' @
       CHR '','' # encode_basestring ''options'' @ CHR '':'' # CHR ''['' #
       join '','' (map encode_basestring opts') @ CHR '']'' #
       CHR '','' # encode_basestring ''question'' @ CHR '':'' # encode_basestring t' @ ''}'' @ Y"
    by (simp add: x y dumps_schema_question)
  from encode_basestring_unique [OF 1] have c: "c = c'"
    and 2: "join '','' (map encode_basestring opts) @ CHR '']'' #
       (CHR '','' # encode_basestring ''question'' @ CHR '':'' # encode_basestring t @ ''}'' @ X)
     = join '','' (map encode_basestring opts') @ CHR '']'' #
       (CHR '','' # encode_basestring ''question'' @ CHR '':'' # encode_basestring t' @ ''}'' @ Y)"
    by simp_all
  from options_unique [OF 2] have o: "opts = opts'"
    and 3: "encode_basestring t @ (''}'' @ X) = encode_basestring t' @ (''}'' @ Y)"
    by simp_all
  from encode_basestring_unique [OF 3] show ?thesis by (simp add: x y c o)
qed

lemma schema_question_start: "dumps (schema_question x) @ X \<noteq> CHR '']'' # Y"
  by (cases x) (simp add: dumps_schema_question)

lemma schema_questions_unique:
  assumes "dumps (JList (map schema_question xs)) = dumps (JList (map schema_question ys))"
  shows "xs = ys"
proof -
  have "join '','' (map (\<lambda>x. dumps (schema_question x)) xs) @ CHR '']'' # []
      = join '','' (map (\<lambda>x. dumps (schema_question x)) ys) @ CHR '']'' # []"
    using assms by (simp add: comp_def)
  from joined_unique [of "\<lambda>x. dumps (schema_question x)", OF _ _ this]
  show ?thesis using schema_question_unique schema_question_start by blast
qed

lemma fifteen_mask: "(15 :: 256 word) = mask 4"
  by (simp add: mask_eq_exp_minus_1)

lemma nibble_bound: "unat (x AND (15 :: 256 word)) < 16"
proof -
  have "x AND 15 \<le> (15 :: 256 word)" by (rule word_and_le1)
  then have "unat (x AND 15) \<le> unat (15 :: 256 word)" by (simp add: word_le_nat_alt)
  then show ?thesis by simp
qed

lemma hexdigest_inj:
  assumes "hexdigest w = hexdigest w'"
  shows "w = w'"
proof (rule bit_eqI)
  fix n
  assume "possible_bit TYPE(256 word) n"
  then have n: "n < 256" by (simp add: possible_bit_def)
  let ?k = "n div 4" and ?j = "n mod 4"
  have k: "63 - ?k < 64" "?k \<le> 63" using n by auto
  have all: "\<forall>i \<in> set [0..<64].
      hex_digit (unat (drop_bit (4 * (63 - i)) w AND 15))
    = hex_digit (unat (drop_bit (4 * (63 - i)) w' AND 15))"
    using assms unfolding hexdigest_def by (simp only: map_eq_conv)
  have "63 - ?k \<in> set [0..<64]" by simp
  from bspec [OF all this]
  have "hex_digit (unat (drop_bit (4 * (63 - (63 - ?k))) w AND 15))
    = hex_digit (unat (drop_bit (4 * (63 - (63 - ?k))) w' AND 15))" .
  then have "hex_digit (unat (drop_bit (4 * ?k) w AND 15))
    = hex_digit (unat (drop_bit (4 * ?k) w' AND 15))"
    using k by simp
  then have "unat (drop_bit (4 * ?k) w AND 15) = unat (drop_bit (4 * ?k) w' AND 15)"
    by (intro hex_digit_inj nibble_bound)
  then have e: "drop_bit (4 * ?k) w AND 15 = drop_bit (4 * ?k) w' AND 15"
    by (simp add: word_unat_eq_iff)
  have j: "?j < 256" by (rule less_trans [of _ 4]) simp_all
  have "bit (drop_bit (4 * ?k) w AND 15) ?j = bit w n"
    using j by (simp add: fifteen_mask bit_and_iff bit_drop_bit_eq bit_mask_iff)
  moreover have "bit (drop_bit (4 * ?k) w' AND 15) ?j = bit w' n"
    using j by (simp add: fifteen_mask bit_and_iff bit_drop_bit_eq bit_mask_iff)
  ultimately show "bit w n = bit w' n" using e by simp
qed

lemma strings_of: "list_all is_str xs \<Longrightarrow> \<exists>ss. xs = map JStr ss"
proof (induction xs)
  case Nil
  then show ?case by simp
next
  case (Cons x xs)
  then obtain ss where "xs = map JStr ss" by auto
  moreover obtain s where "x = JStr s" using Cons.prems by (cases x) (auto simp: is_str_def)
  ultimately have "x # xs = map JStr (s # ss)" by simp
  then show ?case by (rule exI)
qed

lemma valid_question_schema:
  assumes "valid_question q"
  shows "\<exists>x. question_dict q = schema_question x"
proof -
  from assms obtain kvs t opts c where q: "q = JDict kvs"
    and f: "map_of kvs ''question'' = Some (JStr t)" "map_of kvs ''options'' = Some (JList opts)"
      "map_of kvs ''correct_answer'' = Some (JStr c)"
    and s: "list_all is_str opts"
    by (auto simp: valid_question_def split: json.splits option.splits)
  from strings_of [OF s] obtain ss where "opts = map JStr ss" by blast
  then have "question_dict q = schema_question (t, ss, c)"
    by (simp add: q f question_dict_def dict_get_def schema_question_def)
  then show ?thesis by blast
qed

lemma valid_questions_schema:
  assumes "valid_questions Q"
  shows "\<exists>xs. questions_dicts Q = JList (map schema_question xs)"
proof -
  from assms obtain qs where Q: "Q = JList qs" and v: "list_all valid_question qs"
    by (cases Q) (auto simp: valid_questions_def)
  have "\<exists>xs. map question_dict qs = map schema_question xs" using v
  proof (induction qs)
    case Nil
    then show ?case by simp
  next
    case (Cons q qs)
    then obtain xs where "map question_dict qs = map schema_question xs" by auto
    moreover have "valid_question q" using Cons.prems by simp
    from valid_question_schema [OF this] obtain x where "question_dict q = schema_question x"
      by blast
    ultimately have "map question_dict (q # qs) = map schema_question (x # xs)" by simp
    then show ?case by (rule exI)
  qed
  then show ?thesis by (simp add: Q questions_dicts_def)
qed

lemma validated_encoding_unique:
  assumes "valid_questions Q" "valid_questions Q'"
    and "dumps (questions_dicts Q) = dumps (questions_dicts Q')"
  shows "questions_dicts Q = questions_dicts Q'"
proof -
  obtain xs where xs: "questions_dicts Q = JList (map schema_question xs)"
    using valid_questions_schema [OF assms(1)] by blast
  obtain ys where ys: "questions_dicts Q' = JList (map schema_question ys)"
    using valid_questions_schema [OF assms(2)] by blast
  have "xs = ys" using assms(3) unfolding xs ys by (rule schema_questions_unique)
  then show ?thesis by (simp add: xs ys)
qed

lemma utf8_char_unique:
  assumes "utf8_char c @ X = utf8_char c' @ X'"
  shows "c = c' \<and> X = X'"
proof -
  let ?n = "of_char c :: nat" and ?m = "of_char c' :: nat"
  have b: "?n < 256" "?m < 256" by simp_all
  consider "?n < 128" "?m < 128" | "?n < 128" "\<not> ?m < 128" | "\<not> ?n < 128" "?m < 128"
    | "\<not> ?n < 128" "\<not> ?m < 128" by blast
  then show ?thesis
  proof cases
    case 1
    then show ?thesis using assms by (simp add: utf8_char_def)
  next
    case 2
    then have "c = char_of (192 + ?m div 64)" using assms by (simp add: utf8_char_def Let_def)
    then have "?n = (192 + ?m div 64) mod 256" by (metis of_char_of)
    then show ?thesis using 2 b by simp
  next
    case 3
    then have "c' = char_of (192 + ?n div 64)" using assms by (simp add: utf8_char_def Let_def)
    then have "?m = (192 + ?n div 64) mod 256" by (metis of_char_of)
    then show ?thesis using 3 b by simp
  next
    case 4
    then have e: "char_of (192 + ?n div 64) = (char_of (192 + ?m div 64) :: char)"
      "char_of (128 + ?n mod 64) = (char_of (128 + ?m mod 64) :: char)" "X = X'"
      using assms by (simp_all add: utf8_char_def Let_def)
    have "(192 + ?n div 64) mod 256 = (192 + ?m div 64) mod 256"
      using arg_cong [OF e(1), of "of_char :: char \<Rightarrow> nat"] by (simp only: of_char_of)
    then have d: "?n div 64 = ?m div 64" using b by simp
    have "(128 + ?n mod 64) mod 256 = (128 + ?m mod 64) mod 256"
      using arg_cong [OF e(2), of "of_char :: char \<Rightarrow> nat"] by (simp only: of_char_of)
    then have m: "?n mod 64 = ?m mod 64" by simp
    have "?n = ?m" using d m by (metis div_mult_mod_eq)
    then show ?thesis using e(3) by simp
  qed
qed

lemma utf8_char_nonempty: "utf8_char c \<noteq> []"
  by (simp add: utf8_char_def Let_def)

lemma utf8_encode_inj: "utf8_encode s = utf8_encode s' \<Longrightarrow> s = s'"
proof (induction s arbitrary: s')
  case Nil
  then show ?case by (cases s') (simp_all add: utf8_encode_def utf8_char_nonempty)
next
  case (Cons c s)
  show ?case
  proof (cases s')
    case Nil
    then show ?thesis using Cons.prems by (simp add: utf8_encode_def utf8_char_nonempty)
  next
    case (Cons c' t)
    have "utf8_char c @ utf8_encode s = utf8_char c' @ utf8_encode t"
      using Cons.prems Cons by (simp add: utf8_encode_def)
    then have "c = c'" "utf8_encode s = utf8_encode t" using utf8_char_unique by blast+
    then show ?thesis using Cons.IH Cons by simp
  qed
qed

text \<open>
  C4, amended. Equal canonical encodings give equal fingerprints; two fingerprints are
  equal exactly when the digests of the encodings are, and the bytes that are digested are
  equal exactly when the encodings are. Permuting the keys inside the questions (each a
  dictionary with distinct keys) leaves the encoding and the fingerprint unchanged. On
  question lists that passed the schema, the encoding determines the content: two lists
  that differ in a text, an option, a correct answer or the number of questions have
  different encodings.
\<close>

theorem fingerprint_of_canonical_content:
  "(dumps Q = dumps Q' \<longrightarrow> questions_fingerprint H Q = questions_fingerprint H Q')
   \<and> (questions_fingerprint H Q = questions_fingerprint H Q'
        \<longleftrightarrow> H (utf8_encode (dumps Q)) = H (utf8_encode (dumps Q')))
   \<and> (utf8_encode (dumps Q) = utf8_encode (dumps Q') \<longleftrightarrow> dumps Q = dumps Q')
   \<and> (list_all2 keys_permuted qs qs'
        \<longrightarrow> dumps (JList qs) = dumps (JList qs')
          \<and> questions_fingerprint H (JList qs) = questions_fingerprint H (JList qs'))
   \<and> (valid_questions V \<and> valid_questions V'
        \<longrightarrow> (dumps (questions_dicts V) = dumps (questions_dicts V')
              \<longleftrightarrow> questions_dicts V = questions_dicts V'))"
proof (intro conjI impI)
  show "questions_fingerprint H Q = questions_fingerprint H Q'" if "dumps Q = dumps Q'"
    using that by (simp add: questions_fingerprint_def)
  show "questions_fingerprint H Q = questions_fingerprint H Q'
        \<longleftrightarrow> H (utf8_encode (dumps Q)) = H (utf8_encode (dumps Q'))"
    using hexdigest_inj by (auto simp: questions_fingerprint_def)
  show "utf8_encode (dumps Q) = utf8_encode (dumps Q') \<longleftrightarrow> dumps Q = dumps Q'"
    using utf8_encode_inj by auto
  show "dumps (JList qs) = dumps (JList qs')" if "list_all2 keys_permuted qs qs'"
    using that by (rule dumps_questions_permuted)
  show "questions_fingerprint H (JList qs) = questions_fingerprint H (JList qs')"
    if "list_all2 keys_permuted qs qs'"
    using dumps_questions_permuted [OF that] by (simp add: questions_fingerprint_def)
  show "dumps (questions_dicts V) = dumps (questions_dicts V')
        \<longleftrightarrow> questions_dicts V = questions_dicts V'"
    if "valid_questions V \<and> valid_questions V'"
    using that validated_encoding_unique by auto
qed

theorem fingerprint_of_canonical_content_witness:
  "dumps (JList [permuted_question]) = dumps (JList [example_question])
   \<and> questions_fingerprint length_digest (JList [permuted_question])
       = questions_fingerprint length_digest (JList [example_question])
   \<and> dumps (questions_dicts (JList [changed_option])) \<noteq> dumps (questions_dicts (JList [example_question]))
   \<and> dumps (questions_dicts (JList [example_question, example_question]))
       \<noteq> dumps (questions_dicts (JList [example_question]))"
proof -
  have p: "list_all2 keys_permuted [permuted_question] [example_question]"
    by (simp add: keys_permuted_def permuted_question_def example_question_def)
  have v: "valid_questions (JList [example_question])"
    "valid_questions (JList [changed_option])"
    "valid_questions (JList [example_question, example_question])"
    by (simp_all add: valid_questions_def valid_question_def example_question_def
        changed_option_def is_str_def)
  have d: "questions_dicts (JList [changed_option]) \<noteq> questions_dicts (JList [example_question])"
    "questions_dicts (JList [example_question, example_question])
       \<noteq> questions_dicts (JList [example_question])"
    by (simp_all add: questions_dicts_def question_dict_def example_question_def
        changed_option_def dict_get_def)
  note t = fingerprint_of_canonical_content
  show ?thesis
    using t [of _ _ length_digest "[permuted_question]" "[example_question]"] p
      t [of _ _ _ _ _ "JList [changed_option]" "JList [example_question]"]
      t [of _ _ _ _ _ "JList [example_question, example_question]" "JList [example_question]"]
      v d
    by blast
qed

end
